theory Spec2Isabelle
  imports Main
begin

section \<open>Resource types\<close>

text \<open>
  \<^verbatim>\<open>type PipelineResourceType string\<close>: a resource type is a Go string, so any string
  is a value of the type; the six constants are the known ones.
\<close>

type_synonym PipelineResourceType = string

definition PipelineResourceTypeGit :: PipelineResourceType where
  "PipelineResourceTypeGit = ''git''"

definition PipelineResourceTypeStorage :: PipelineResourceType where
  "PipelineResourceTypeStorage = ''storage''"

definition PipelineResourceTypeImage :: PipelineResourceType where
  "PipelineResourceTypeImage = ''image''"

definition PipelineResourceTypeCluster :: PipelineResourceType where
  "PipelineResourceTypeCluster = ''cluster''"

definition PipelineResourceTypePullRequest :: PipelineResourceType where
  "PipelineResourceTypePullRequest = ''pullRequest''"

definition PipelineResourceTypeCloudEvent :: PipelineResourceType where
  "PipelineResourceTypeCloudEvent = ''cloudEvent''"

text \<open>
  \<^verbatim>\<open>AllowedOutputResources = map[PipelineResourceType]bool{Storage: true, Git: true}\<close>,
  a Go map, here a partial function with the two entries in the order of the literal.
\<close>

definition AllowedOutputResources :: "PipelineResourceType \<rightharpoonup> bool" where
  "AllowedOutputResources =
     [PipelineResourceTypeStorage \<mapsto> True, PipelineResourceTypeGit \<mapsto> True]"

definition AllResourceTypes :: "PipelineResourceType list" where
  "AllResourceTypes =
     [PipelineResourceTypeGit, PipelineResourceTypeStorage, PipelineResourceTypeImage,
      PipelineResourceTypeCluster, PipelineResourceTypePullRequest,
      PipelineResourceTypeCloudEvent]"

text \<open>
  Modelled from the spec: the two membership predicates of the Resource Type Registry,
  \<^verbatim>\<open>IsValidType(t)\<close> and \<^verbatim>\<open>IsValidOutputType(t)\<close>, are named by the specification but
  are not functions of the source file, which only declares the slice and the map they
  test. \<^verbatim>\<open>IsValidType\<close> is membership in \<^verbatim>\<open>AllResourceTypes\<close>; \<^verbatim>\<open>IsValidOutputType\<close> is
  the Go map index \<^verbatim>\<open>AllowedOutputResources[t]\<close>, which yields the zero value
  \<^verbatim>\<open>false\<close> for a key that is absent.
\<close>

definition IsValidType :: "PipelineResourceType \<Rightarrow> bool" where
  "IsValidType t = (t \<in> set AllResourceTypes)"

definition IsValidOutputType :: "PipelineResourceType \<Rightarrow> bool" where
  "IsValidOutputType t = (case AllowedOutputResources t of None \<Rightarrow> False | Some b \<Rightarrow> b)"

section \<open>Steps, volumes, task specifications and task modifiers\<close>

text \<open>
  \<^verbatim>\<open>Step\<close> and \<^verbatim>\<open>TaskSpec\<close> are declared in other files of the package and
  \<^verbatim>\<open>v1.Volume\<close> in the Kubernetes API; the functions below read only the fields that
  the records here declare. Everything else a \<^verbatim>\<open>Step\<close> or a \<^verbatim>\<open>TaskSpec\<close> carries is the
  extension part of the record scheme, which the functions pass through untouched. A
  \<^verbatim>\<open>v1.Volume\<close> is a name and a volume source; the source's type is a parameter.

  The two fields of a \<^verbatim>\<open>TaskSpec\<close> and the three results of a \<^verbatim>\<open>TaskModifier\<close> are Go
  slices. The records leave their type open, since the functions are given twice: on
  the values of the slices, where a slice is the list of its elements, and on slices in
  memory, where a slice is a window on a backing array that another slice may share.
\<close>

record Step =
  Name :: string

record 'src Volume =
  Name :: string
  VolumeSource :: 'src

record ('steps, 'volumes) TaskSpec =
  Steps :: 'steps
  Volumes :: 'volumes

text \<open>
  The interface \<^verbatim>\<open>TaskModifier\<close> has three methods without arguments, each called once
  by \<^verbatim>\<open>ApplyTaskModifier\<close>; an interface value is modelled by what the three calls
  return.
\<close>

record ('steps, 'volumes) TaskModifier =
  GetStepsToPrepend :: 'steps
  GetStepsToAppend :: 'steps
  GetVolumes :: 'volumes

record ('steps, 'volumes) InternalTaskModifier =
  StepsToPrepend :: 'steps
  StepsToAppend :: 'steps
  Volumes :: 'volumes

definition InternalTaskModifier_GetStepsToPrepend ::
  "('steps, 'volumes) InternalTaskModifier \<Rightarrow> 'steps" where
  "InternalTaskModifier_GetStepsToPrepend tm = StepsToPrepend tm"

definition InternalTaskModifier_GetStepsToAppend ::
  "('steps, 'volumes) InternalTaskModifier \<Rightarrow> 'steps" where
  "InternalTaskModifier_GetStepsToAppend tm = StepsToAppend tm"

definition InternalTaskModifier_GetVolumes ::
  "('steps, 'volumes) InternalTaskModifier \<Rightarrow> 'volumes" where
  "InternalTaskModifier_GetVolumes tm = InternalTaskModifier.Volumes tm"

text \<open>An \<^verbatim>\<open>*InternalTaskModifier\<close> used as a \<^verbatim>\<open>TaskModifier\<close>.\<close>

definition InternalTaskModifier_as_TaskModifier ::
  "('steps, 'volumes) InternalTaskModifier \<Rightarrow> ('steps, 'volumes) TaskModifier" where
  "InternalTaskModifier_as_TaskModifier tm =
     \<lparr>GetStepsToPrepend = InternalTaskModifier_GetStepsToPrepend tm,
      GetStepsToAppend = InternalTaskModifier_GetStepsToAppend tm,
      GetVolumes = InternalTaskModifier_GetVolumes tm\<rparr>"

section \<open>Errors\<close>

text \<open>
  The code returns two errors, both built by \<^verbatim>\<open>fmt.Errorf\<close> around a name. The model
  keeps the kind and the name; \<open>Error\<close> renders the message of the source.
\<close>

datatype error = DuplicateStepName string | ConflictingVolume string

fun Error :: "error \<Rightarrow> string" where
  "Error (DuplicateStepName n) = ''Step '' @ n @ '' cannot be added again''"
| "Error (ConflictingVolume n) =
     ''tried to add volume '' @ n @ '' already added but with different contents''"

section \<open>Comparing volumes\<close>

text \<open>
  \<^verbatim>\<open>cmp.Diff(volume, v)\<close> is empty exactly when \<^verbatim>\<open>cmp.Equal(volume, v)\<close> holds. The
  library compares a struct field by field, a string with \<^verbatim>\<open>==\<close>, and a value of a type
  with an \<^verbatim>\<open>Equal\<close> method through that method, so two volumes may compare equal
  without being the same value. The library and the volume source are not part of the
  repository: the comparison of two volume sources is the parameter \<open>eqSrc\<close> of every
  function that reaches the test, and no property of it is assumed.
\<close>

definition cmpEqual :: "('src \<Rightarrow> 'src \<Rightarrow> bool) \<Rightarrow> 'src Volume \<Rightarrow> 'src Volume \<Rightarrow> bool" where
  "cmpEqual eqSrc x y \<longleftrightarrow>
     Volume.Name x = Volume.Name y \<and> eqSrc (VolumeSource x) (VolumeSource y)"

text \<open>
  One such type is \<^verbatim>\<open>resource.Quantity\<close> of the Kubernetes API, the type of the size
  limit of an \<^verbatim>\<open>emptyDir\<close> volume. A quantity is kept as an unscaled integer and a decimal
  scale and stands for \<open>unscaled * 10 ^ scale\<close>: \<^verbatim>\<open>1\<close> is kept as \<open>(1, 0)\<close> and
  \<^verbatim>\<open>1000m\<close> as \<open>(1000, -3)\<close>. Its \<^verbatim>\<open>Equal\<close> method compares the amounts. The record
  keeps these two fields, and a volume source made of one size limit is what the
  examples with quantities use.
\<close>

record Quantity =
  unscaled :: int
  scale :: int

definition Quantity_Equal :: "Quantity \<Rightarrow> Quantity \<Rightarrow> bool" where
  "Quantity_Equal x y \<longleftrightarrow>
     unscaled x * 10 ^ nat (scale x - min (scale x) (scale y))
       = unscaled y * 10 ^ nat (scale y - min (scale x) (scale y))"

section \<open>The merge engine on the values of the slices\<close>

text \<open>
  \<^verbatim>\<open>checkStepNotAlreadyAdded(s, steps)\<close>: the first step of \<open>steps\<close> with the name of
  \<open>s\<close> gives the error, which carries that step's name.
\<close>

fun checkStepNotAlreadyAdded :: "'b Step_scheme \<Rightarrow> 'b Step_scheme list \<Rightarrow> error option" where
  "checkStepNotAlreadyAdded s [] = None"
| "checkStepNotAlreadyAdded s (step # steps) =
     (if Step.Name s = Step.Name step then Some (DuplicateStepName (Step.Name step))
      else checkStepNotAlreadyAdded s steps)"

text \<open>
  The loop \<^verbatim>\<open>for _, step := range steps { if err := checkStepNotAlreadyAdded(step, ts.Steps);
  err != nil { return err } }\<close>, which occurs twice in \<^verbatim>\<open>ApplyTaskModifier\<close>. The second
  argument is \<^verbatim>\<open>ts.Steps\<close>, which the loop does not change.
\<close>

fun checkStepsNotAlreadyAdded :: "'b Step_scheme list \<Rightarrow> 'b Step_scheme list \<Rightarrow> error option" where
  "checkStepsNotAlreadyAdded [] tsSteps = None"
| "checkStepsNotAlreadyAdded (step # steps) tsSteps =
     (case checkStepNotAlreadyAdded step tsSteps of
        Some err \<Rightarrow> Some err
      | None \<Rightarrow> checkStepsNotAlreadyAdded steps tsSteps)"

text \<open>
  The inner loop over \<^verbatim>\<open>ts.Volumes\<close> for one contributed \<open>volume\<close>. The flag is
  \<^verbatim>\<open>alreadyAdded\<close>. The loop has no \<^verbatim>\<open>break\<close>: after an identical volume it goes on and
  may still meet one of the same name with other contents. The test
  \<^verbatim>\<open>cmp.Diff(volume, v) != ""\<close> is \<open>\<not> cmpEqual eqSrc volume v\<close>.
\<close>

fun volumeAlreadyAdded ::
  "('src \<Rightarrow> 'src \<Rightarrow> bool) \<Rightarrow> 'src Volume \<Rightarrow> 'src Volume list \<Rightarrow> bool \<Rightarrow> error + bool" where
  "volumeAlreadyAdded eqSrc volume [] alreadyAdded = Inr alreadyAdded"
| "volumeAlreadyAdded eqSrc volume (v # vs) alreadyAdded =
     (if Volume.Name volume = Volume.Name v then
        (if \<not> cmpEqual eqSrc volume v then Inl (ConflictingVolume (Volume.Name volume))
         else volumeAlreadyAdded eqSrc volume vs True)
      else volumeAlreadyAdded eqSrc volume vs alreadyAdded)"

text \<open>
  The outer loop over the contributed volumes. The third argument is \<^verbatim>\<open>ts.Volumes\<close>; the
  result is the error returned, if any, with \<^verbatim>\<open>ts.Volumes\<close> as the loop left it.
\<close>

fun addVolumes ::
  "('src \<Rightarrow> 'src \<Rightarrow> bool) \<Rightarrow> 'src Volume list \<Rightarrow> 'src Volume list
     \<Rightarrow> error option \<times> 'src Volume list" where
  "addVolumes eqSrc [] tsVolumes = (None, tsVolumes)"
| "addVolumes eqSrc (volume # volumes) tsVolumes =
     (case volumeAlreadyAdded eqSrc volume tsVolumes False of
        Inl err \<Rightarrow> (Some err, tsVolumes)
      | Inr alreadyAdded \<Rightarrow>
          addVolumes eqSrc volumes
            (if \<not> alreadyAdded then tsVolumes @ [volume] else tsVolumes))"

text \<open>
  \<^verbatim>\<open>ApplyTaskModifier(ts, tm)\<close> mutates \<^verbatim>\<open>*ts\<close> and returns an error. The model returns
  the error (\<open>None\<close> for \<^verbatim>\<open>nil\<close>) together with the task specification as the call leaves
  it, also when the call fails. Here a slice is the list of its elements and \<^verbatim>\<open>append\<close>
  is concatenation; \<open>ApplyTaskModifier_mem\<close> below is the same function on slices in
  memory, and \<open>ApplyTaskModifier_mem_values\<close> states when the two agree.
\<close>

definition ApplyTaskModifier ::
  "('src \<Rightarrow> 'src \<Rightarrow> bool)
     \<Rightarrow> ('b Step_scheme list, 'src Volume list, 'z) TaskSpec_scheme
     \<Rightarrow> ('b Step_scheme list, 'src Volume list) TaskModifier
     \<Rightarrow> error option \<times> ('b Step_scheme list, 'src Volume list, 'z) TaskSpec_scheme" where
  "ApplyTaskModifier eqSrc ts tm =
     (let steps = GetStepsToPrepend tm in
      case checkStepsNotAlreadyAdded steps (Steps ts) of
        Some err \<Rightarrow> (Some err, ts)
      | None \<Rightarrow>
          let ts = ts\<lparr>Steps := steps @ Steps ts\<rparr>;
              steps = GetStepsToAppend tm in
          (case checkStepsNotAlreadyAdded steps (Steps ts) of
             Some err \<Rightarrow> (Some err, ts)
           | None \<Rightarrow>
               let ts = ts\<lparr>Steps := Steps ts @ steps\<rparr>;
                   volumes = GetVolumes tm in
               (case addVolumes eqSrc volumes (TaskSpec.Volumes ts) of
                  (err, tsVolumes) \<Rightarrow> (err, ts\<lparr>TaskSpec.Volumes := tsVolumes\<rparr>))))"

text \<open>The names of a list of steps and of a list of volumes.\<close>

abbreviation stepNames :: "'b Step_scheme list \<Rightarrow> string set" where
  "stepNames steps \<equiv> Step.Name ` set steps"

abbreviation volumeNames :: "'src Volume list \<Rightarrow> string set" where
  "volumeNames volumes \<equiv> Volume.Name ` set volumes"

section \<open>The merge engine on slices in memory\<close>

text \<open>
  A slice is a backing array, the offset of its first element, its length and its
  capacity, the last two counted from the offset. The memory holds the backing arrays
  of the steps and those of the volumes, each array with all its cells. A \<^verbatim>\<open>nil\<close> slice
  has length and capacity zero.
\<close>

record slice =
  array :: nat
  offset :: nat
  len :: nat
  cap :: nat

record ('b, 'src) memory =
  StepArrays :: "'b Step_scheme list list"
  VolumeArrays :: "'src Volume list list"

definition elems :: "'a list list \<Rightarrow> slice \<Rightarrow> 'a list" where
  "elems arrays s = take (len s) (drop (offset s) (arrays ! array s))"

text \<open>
  A slice of the Go runtime lies within its backing array: its length is at most its
  capacity, and the capacity ends within the array. This holds of every slice that a Go
  program can build, so it is no condition on the caller of \<^verbatim>\<open>ApplyTaskModifier\<close>.
\<close>

definition wf_slice :: "'a list list \<Rightarrow> slice \<Rightarrow> bool" where
  "wf_slice arrays s \<longleftrightarrow>
     len s \<le> cap s \<and>
     (cap s = 0 \<or> (array s < length arrays \<and> offset s + cap s \<le> length (arrays ! array s)))"

text \<open>
  \<^verbatim>\<open>append(s, xs...)\<close>. When the capacity of \<open>s\<close> suffices the elements are written into
  the backing array of \<open>s\<close>, behind its last element, and the result is the same window
  made longer: whatever other slice covers those cells sees them change. Otherwise the
  elements of \<open>s\<close> and \<open>xs\<close> are copied to a new array. How much capacity the new
  array gets is left to the Go runtime; no slice but the result reaches it, so the model
  gives it none to spare. The elements \<open>xs\<close> are read before any cell is written, as
  the copy of the runtime does for overlapping source and target.
\<close>

definition go_append :: "'a list list \<Rightarrow> slice \<Rightarrow> 'a list \<Rightarrow> 'a list list \<times> slice" where
  "go_append arrays s xs =
     (if len s + length xs \<le> cap s then
        (arrays[array s :=
           take (offset s + len s) (arrays ! array s) @ xs
             @ drop (offset s + len s + length xs) (arrays ! array s)],
         s\<lparr>len := len s + length xs\<rparr>)
      else
        (arrays @ [elems arrays s @ xs],
         \<lparr>array = length arrays, offset = 0,
          len = len s + length xs, cap = len s + length xs\<rparr>))"

text \<open>
  Some cell of the spare capacity of \<open>s\<close>, the cells an \<^verbatim>\<open>append\<close> to \<open>s\<close> may write
  without moving to a new array, is an element of \<open>r\<close>.
\<close>

definition spareOverlaps :: "slice \<Rightarrow> slice \<Rightarrow> bool" where
  "spareOverlaps s r \<longleftrightarrow>
     array s = array r \<and> len s < cap s \<and> 0 < len r \<and>
     offset s + len s < offset r + len r \<and> offset r < offset s + cap s"

text \<open>
  Lines 133 to 147 of \<^verbatim>\<open>ApplyTaskModifier\<close>, the two step validations and the two
  assignments to \<^verbatim>\<open>ts.Steps\<close>. Each validation loop reads its two slices from the memory
  as it is when the loop starts, and writes nothing.
\<close>

definition applySteps_mem ::
  "('b, 'src) memory \<Rightarrow> (slice, slice, 'z) TaskSpec_scheme \<Rightarrow> (slice, slice) TaskModifier
     \<Rightarrow> error option \<times> ('b, 'src) memory \<times> (slice, slice, 'z) TaskSpec_scheme" where
  "applySteps_mem m ts tm =
     (let steps = GetStepsToPrepend tm in
      case checkStepsNotAlreadyAdded (elems (StepArrays m) steps) (elems (StepArrays m) (Steps ts)) of
        Some err \<Rightarrow> (Some err, m, ts)
      | None \<Rightarrow>
          (case go_append (StepArrays m) steps (elems (StepArrays m) (Steps ts)) of
             (arrays, s) \<Rightarrow>
               let m = m\<lparr>StepArrays := arrays\<rparr>;
                   ts = ts\<lparr>Steps := s\<rparr>;
                   steps = GetStepsToAppend tm in
               (case checkStepsNotAlreadyAdded
                       (elems (StepArrays m) steps) (elems (StepArrays m) (Steps ts)) of
                  Some err \<Rightarrow> (Some err, m, ts)
                | None \<Rightarrow>
                    (case go_append (StepArrays m) (Steps ts) (elems (StepArrays m) steps) of
                       (arrays, s) \<Rightarrow>
                         (None, m\<lparr>StepArrays := arrays\<rparr>, ts\<lparr>Steps := s\<rparr>)))))"

text \<open>
  Lines 149 to 165, the volume loop. \<^verbatim>\<open>range volumes\<close> fixes the window once and reads
  the element with index \<open>i\<close> from the backing array when its turn comes, after the
  appends of the earlier turns. The indices still to visit are the fourth argument.
\<close>

fun addVolumes_mem ::
  "('src \<Rightarrow> 'src \<Rightarrow> bool) \<Rightarrow> 'src Volume list list \<Rightarrow> slice \<Rightarrow> nat list \<Rightarrow> slice
     \<Rightarrow> error option \<times> 'src Volume list list \<times> slice" where
  "addVolumes_mem eqSrc arrays volumes [] tsVolumes = (None, arrays, tsVolumes)"
| "addVolumes_mem eqSrc arrays volumes (i # idxs) tsVolumes =
     (let volume = arrays ! array volumes ! (offset volumes + i) in
      case volumeAlreadyAdded eqSrc volume (elems arrays tsVolumes) False of
        Inl err \<Rightarrow> (Some err, arrays, tsVolumes)
      | Inr alreadyAdded \<Rightarrow>
          (if \<not> alreadyAdded then
             (case go_append arrays tsVolumes [volume] of
                (arrays', tsVolumes') \<Rightarrow> addVolumes_mem eqSrc arrays' volumes idxs tsVolumes')
           else addVolumes_mem eqSrc arrays volumes idxs tsVolumes))"

text \<open>\<^verbatim>\<open>ApplyTaskModifier\<close> on slices in memory: the error, the memory and \<^verbatim>\<open>*ts\<close> after the call.\<close>

definition ApplyTaskModifier_mem ::
  "('src \<Rightarrow> 'src \<Rightarrow> bool) \<Rightarrow> ('b, 'src) memory \<Rightarrow> (slice, slice, 'z) TaskSpec_scheme
     \<Rightarrow> (slice, slice) TaskModifier
     \<Rightarrow> error option \<times> ('b, 'src) memory \<times> (slice, slice, 'z) TaskSpec_scheme" where
  "ApplyTaskModifier_mem eqSrc m ts tm =
     (case applySteps_mem m ts tm of
        (Some err, m, ts) \<Rightarrow> (Some err, m, ts)
      | (None, m, ts) \<Rightarrow>
          let volumes = GetVolumes tm in
          (case addVolumes_mem eqSrc (VolumeArrays m) volumes [0..<len volumes]
                  (TaskSpec.Volumes ts) of
             (err, arrays, tsVolumes) \<Rightarrow>
               (err, m\<lparr>VolumeArrays := arrays\<rparr>, ts\<lparr>TaskSpec.Volumes := tsVolumes\<rparr>)))"

text \<open>The values that a task specification and a modifier in memory stand for.\<close>

definition TaskSpec_values ::
  "('b, 'src) memory \<Rightarrow> (slice, slice, 'z) TaskSpec_scheme
     \<Rightarrow> ('b Step_scheme list, 'src Volume list, 'z) TaskSpec_scheme" where
  "TaskSpec_values m ts =
     \<lparr>Steps = elems (StepArrays m) (Steps ts),
      TaskSpec.Volumes = elems (VolumeArrays m) (TaskSpec.Volumes ts),
      \<dots> = TaskSpec.more ts\<rparr>"

definition TaskModifier_values ::
  "('b, 'src) memory \<Rightarrow> (slice, slice) TaskModifier
     \<Rightarrow> ('b Step_scheme list, 'src Volume list) TaskModifier" where
  "TaskModifier_values m tm =
     \<lparr>GetStepsToPrepend = elems (StepArrays m) (GetStepsToPrepend tm),
      GetStepsToAppend = elems (StepArrays m) (GetStepsToAppend tm),
      GetVolumes = elems (VolumeArrays m) (GetVolumes tm)\<rparr>"


abbreviation volumesAt :: "('b, 'src) memory \<Rightarrow> slice \<Rightarrow> 'src Volume list" where
  "volumesAt m s \<equiv> elems (VolumeArrays m) s"

section \<open>Modifiers and error messages\<close>

lemma InternalTaskModifier_as_TaskModifier_fields:
  "GetStepsToPrepend (InternalTaskModifier_as_TaskModifier tm) = StepsToPrepend tm"
  "GetStepsToAppend (InternalTaskModifier_as_TaskModifier tm) = StepsToAppend tm"
  "GetVolumes (InternalTaskModifier_as_TaskModifier tm) = InternalTaskModifier.Volumes tm"
  by (simp_all add: InternalTaskModifier_as_TaskModifier_def
      InternalTaskModifier_GetStepsToPrepend_def InternalTaskModifier_GetStepsToAppend_def
      InternalTaskModifier_GetVolumes_def)

lemma Error_kinds_differ:
  "Error (DuplicateStepName n) \<noteq> Error (ConflictingVolume n')"
  by simp

section \<open>Step validation\<close>

lemma checkStepNotAlreadyAdded_None:
  "checkStepNotAlreadyAdded s steps = None \<longleftrightarrow> Step.Name s \<notin> stepNames steps"
  by (induction steps) auto

lemma checkStepNotAlreadyAdded_Some:
  "checkStepNotAlreadyAdded s steps = Some err \<Longrightarrow>
     err = DuplicateStepName (Step.Name s) \<and> Step.Name s \<in> stepNames steps"
  by (induction steps) (auto split: if_splits)

lemma checkStepsNotAlreadyAdded_None:
  "checkStepsNotAlreadyAdded new steps = None \<longleftrightarrow> stepNames new \<inter> stepNames steps = {}"
proof (induction new)
  case Nil
  show ?case by simp
next
  case (Cons step new)
  show ?case
  proof (cases "checkStepNotAlreadyAdded step steps")
    case None
    then have "Step.Name step \<notin> stepNames steps"
      by (simp add: checkStepNotAlreadyAdded_None)
    with None Cons show ?thesis by auto
  next
    case (Some err)
    then have "Step.Name step \<in> stepNames steps"
      by (auto dest: checkStepNotAlreadyAdded_Some)
    with Some show ?thesis by auto
  qed
qed

lemma checkStepsNotAlreadyAdded_Some:
  "checkStepsNotAlreadyAdded new steps = Some err \<Longrightarrow>
     \<exists>s \<in> set new. err = DuplicateStepName (Step.Name s) \<and> Step.Name s \<in> stepNames steps"
  by (induction new) (auto split: option.splits dest: checkStepNotAlreadyAdded_Some)

lemma checkStepsNotAlreadyAdded_collision:
  assumes "stepNames new \<inter> stepNames steps \<noteq> {}"
  shows "\<exists>s \<in> set new. checkStepsNotAlreadyAdded new steps = Some (DuplicateStepName (Step.Name s))
           \<and> Step.Name s \<in> stepNames steps"
proof -
  from assms have "checkStepsNotAlreadyAdded new steps \<noteq> None"
    by (simp add: checkStepsNotAlreadyAdded_None)
  then obtain err where "checkStepsNotAlreadyAdded new steps = Some err"
    by auto
  with checkStepsNotAlreadyAdded_Some [OF this] show ?thesis
    by auto
qed

section \<open>Volume merge\<close>

lemma volumeAlreadyAdded_eq:
  "volumeAlreadyAdded eqSrc volume vs b =
     (if \<exists>v \<in> set vs. Volume.Name v = Volume.Name volume \<and> \<not> cmpEqual eqSrc volume v
      then Inl (ConflictingVolume (Volume.Name volume))
      else Inr (b \<or> Volume.Name volume \<in> volumeNames vs))"
proof (induction vs arbitrary: b)
  case Nil
  show ?case by simp
next
  case (Cons v vs)
  show ?case
  proof (cases "Volume.Name volume = Volume.Name v")
    case False
    then have "volumeAlreadyAdded eqSrc volume (v # vs) b = volumeAlreadyAdded eqSrc volume vs b"
      by simp
    also note Cons.IH
    finally show ?thesis using False by auto
  next
    case same: True
    show ?thesis
    proof (cases "cmpEqual eqSrc volume v")
      case True
      with same have "volumeAlreadyAdded eqSrc volume (v # vs) b
          = volumeAlreadyAdded eqSrc volume vs True"
        by simp
      also note Cons.IH
      finally show ?thesis using True same by auto
    next
      case False
      with same have "volumeAlreadyAdded eqSrc volume (v # vs) b
          = Inl (ConflictingVolume (Volume.Name volume))"
        by simp
      moreover from False same
      have "\<exists>u \<in> set (v # vs). Volume.Name u = Volume.Name volume \<and> \<not> cmpEqual eqSrc volume u"
        by (intro bexI [of _ v]) auto
      ultimately show ?thesis by simp
    qed
  qed
qed


lemma addVolumes_conflict:
  assumes "\<exists>v \<in> set tsv. Volume.Name v = Volume.Name volume \<and> \<not> cmpEqual eqSrc volume v"
  shows "addVolumes eqSrc (volume # volumes) tsv
           = (Some (ConflictingVolume (Volume.Name volume)), tsv)"
proof -
  from assms have "volumeAlreadyAdded eqSrc volume tsv False
      = Inl (ConflictingVolume (Volume.Name volume))"
    by (simp only: volumeAlreadyAdded_eq if_True)
  then show ?thesis by simp
qed

lemma addVolumes_no_conflict:
  assumes "\<not> (\<exists>v \<in> set tsv. Volume.Name v = Volume.Name volume \<and> \<not> cmpEqual eqSrc volume v)"
  shows "addVolumes eqSrc (volume # volumes) tsv =
           addVolumes eqSrc volumes
             (if Volume.Name volume \<in> volumeNames tsv then tsv else tsv @ [volume])"
proof -
  from assms have "volumeAlreadyAdded eqSrc volume tsv False
      = Inr (Volume.Name volume \<in> volumeNames tsv)"
    by (simp only: volumeAlreadyAdded_eq if_False simp_thms)
  then show ?thesis by simp
qed

lemma addVolumes_Some:
  "fst (addVolumes eqSrc vols tsv) = Some err \<Longrightarrow>
     \<exists>w \<in> set vols. err = ConflictingVolume (Volume.Name w)
        \<and> (\<exists>u \<in> set tsv \<union> set vols. Volume.Name u = Volume.Name w \<and> \<not> cmpEqual eqSrc w u)"
proof (induction vols arbitrary: tsv)
  case Nil
  then show ?case by simp
next
  case (Cons volume volumes)
  let ?tsv' = "if Volume.Name volume \<in> volumeNames tsv then tsv else tsv @ [volume]"
  show ?case
  proof (cases "\<exists>v \<in> set tsv. Volume.Name v = Volume.Name volume \<and> \<not> cmpEqual eqSrc volume v")
    case True
    with Cons.prems have "err = ConflictingVolume (Volume.Name volume)"
      using addVolumes_conflict [of tsv volume eqSrc volumes] by simp
    with True show ?thesis by auto
  next
    case False
    then have "addVolumes eqSrc (volume # volumes) tsv = addVolumes eqSrc volumes ?tsv'"
      by (rule addVolumes_no_conflict)
    with Cons.prems have "fst (addVolumes eqSrc volumes ?tsv') = Some err"
      by (simp only:)
    from Cons.IH [OF this] obtain w u where
      "w \<in> set volumes" "err = ConflictingVolume (Volume.Name w)"
      "u \<in> set ?tsv' \<union> set volumes" "Volume.Name u = Volume.Name w" "\<not> cmpEqual eqSrc w u"
      by blast
    moreover then have "u \<in> set tsv \<union> set (volume # volumes)"
      by (auto split: if_splits)
    ultimately show ?thesis by auto
  qed
qed

lemma addVolumes_snd:
  "\<exists>added. snd (addVolumes eqSrc vols tsv) = tsv @ added \<and> set added \<subseteq> set vols
      \<and> volumeNames added \<inter> volumeNames tsv = {}"
proof (induction vols arbitrary: tsv)
  case Nil
  show ?case by simp
next
  case (Cons volume volumes)
  let ?tsv' = "if Volume.Name volume \<in> volumeNames tsv then tsv else tsv @ [volume]"
  show ?case
  proof (cases "\<exists>v \<in> set tsv. Volume.Name v = Volume.Name volume \<and> \<not> cmpEqual eqSrc volume v")
    case True
    then show ?thesis using addVolumes_conflict [of tsv volume eqSrc volumes] by simp
  next
    case False
    then have eq: "addVolumes eqSrc (volume # volumes) tsv = addVolumes eqSrc volumes ?tsv'"
      by (rule addVolumes_no_conflict)
    from Cons.IH [of ?tsv'] obtain added where a:
      "snd (addVolumes eqSrc volumes ?tsv') = ?tsv' @ added" "set added \<subseteq> set volumes"
      "volumeNames added \<inter> volumeNames ?tsv' = {}"
      by blast
    show ?thesis
    proof (cases "Volume.Name volume \<in> volumeNames tsv")
      case True
      with a eq show ?thesis by auto
    next
      case False
      with a eq have "snd (addVolumes eqSrc (volume # volumes) tsv) = tsv @ (volume # added)"
        "set (volume # added) \<subseteq> set (volume # volumes)"
        "volumeNames (volume # added) \<inter> volumeNames tsv = {}"
        by auto
      then show ?thesis by blast
    qed
  qed
qed


lemma addVolumes_keeps_named:
  assumes "n \<in> volumeNames tsv"
  shows "filter (\<lambda>u. Volume.Name u = n) (snd (addVolumes eqSrc vols tsv))
           = filter (\<lambda>u. Volume.Name u = n) tsv"
proof -
  from addVolumes_snd [of eqSrc vols tsv] obtain added where
    a: "snd (addVolumes eqSrc vols tsv) = tsv @ added" "volumeNames added \<inter> volumeNames tsv = {}"
    by blast
  from a(2) assms have "\<forall>u \<in> set added. Volume.Name u \<noteq> n" by auto
  then have "filter (\<lambda>u. Volume.Name u = n) added = []"
    by (simp add: filter_empty_conv)
  with a(1) show ?thesis by simp
qed

lemma addVolumes_conflict_exists:
  assumes "volume \<in> set vols" and "v \<in> set tsv"
    and "Volume.Name volume = Volume.Name v" and "\<not> cmpEqual eqSrc volume v"
  shows "fst (addVolumes eqSrc vols tsv) \<noteq> None"
  using assms(1,2)
proof (induction vols arbitrary: tsv)
  case Nil
  then show ?case by simp
next
  case (Cons w ws)
  let ?tsv' = "if Volume.Name w \<in> volumeNames tsv then tsv else tsv @ [w]"
  show ?case
  proof (cases "\<exists>u \<in> set tsv. Volume.Name u = Volume.Name w \<and> \<not> cmpEqual eqSrc w u")
    case True
    then show ?thesis using addVolumes_conflict [of tsv w eqSrc ws] by simp
  next
    case False
    have "volume \<noteq> w"
    proof
      assume "volume = w"
      with assms(3,4) Cons.prems(2)
      have "\<exists>u \<in> set tsv. Volume.Name u = Volume.Name w \<and> \<not> cmpEqual eqSrc w u"
        by (intro bexI [of _ v]) simp_all
      with False show False by contradiction
    qed
    with Cons.prems(1) have "volume \<in> set ws" by simp
    moreover from Cons.prems(2) have "v \<in> set ?tsv'" by simp
    ultimately have "fst (addVolumes eqSrc ws ?tsv') \<noteq> None"
      by (rule Cons.IH)
    moreover from False have "addVolumes eqSrc (w # ws) tsv = addVolumes eqSrc ws ?tsv'"
      by (rule addVolumes_no_conflict)
    ultimately show ?thesis by (simp only: not_False_eq_True)
  qed
qed

section \<open>The phases of a call\<close>

lemma ApplyTaskModifier_prepend_collision:
  assumes "stepNames (GetStepsToPrepend tm) \<inter> stepNames (Steps ts) \<noteq> {}"
  shows "\<exists>s \<in> set (GetStepsToPrepend tm).
           ApplyTaskModifier eqSrc ts tm = (Some (DuplicateStepName (Step.Name s)), ts)
           \<and> Step.Name s \<in> stepNames (Steps ts)"
proof -
  from checkStepsNotAlreadyAdded_collision [OF assms]
  obtain s where s: "s \<in> set (GetStepsToPrepend tm)"
      "checkStepsNotAlreadyAdded (GetStepsToPrepend tm) (Steps ts)
         = Some (DuplicateStepName (Step.Name s))"
      "Step.Name s \<in> stepNames (Steps ts)"
    by blast
  from s(2) have "ApplyTaskModifier eqSrc ts tm = (Some (DuplicateStepName (Step.Name s)), ts)"
    by (simp add: ApplyTaskModifier_def)
  with s(1,3) show ?thesis by blast
qed



section \<open>Slices in memory\<close>

lemma length_elems:
  "wf_slice arrays s \<Longrightarrow> length (elems arrays s) = len s"
  by (auto simp: wf_slice_def elems_def)

lemma elems_nil:
  "len s = 0 \<Longrightarrow> elems arrays s = []"
  by (simp add: elems_def)

lemma take_drop_written_before:
  "k + j \<le> i \<Longrightarrow> i \<le> length a \<Longrightarrow> take j (drop k (take i a @ ys)) = take j (drop k a)"
  by (simp add: take_drop min_def)

lemma drop_written_after:
  "i + length xs \<le> k \<Longrightarrow> i + length xs \<le> length a \<Longrightarrow>
     drop k (take i a @ xs @ drop (i + length xs) a) = drop k a"
  by simp

lemma length_written:
  "i + length xs \<le> length a \<Longrightarrow> length (take i a @ xs @ drop (i + length xs) a) = length a"
  by simp

lemma written_nothing:
  "take i a @ [] @ drop (i + length ([] :: 'a list)) a = (a :: 'a list)"
  by simp

lemma go_append_in_place:
  "len s + length xs \<le> cap s \<Longrightarrow>
     go_append arrays s xs =
       (arrays[array s :=
          take (offset s + len s) (arrays ! array s) @ xs
            @ drop (offset s + len s + length xs) (arrays ! array s)],
        s\<lparr>len := len s + length xs\<rparr>)"
  by (simp add: go_append_def)

lemma go_append_new_array:
  "cap s < len s + length xs \<Longrightarrow>
     go_append arrays s xs =
       (arrays @ [elems arrays s @ xs],
        \<lparr>array = length arrays, offset = 0, len = len s + length xs, cap = len s + length xs\<rparr>)"
  by (simp add: go_append_def)

lemma elems_go_append:
  assumes "wf_slice arrays s"
  shows "elems (fst (go_append arrays s xs)) (snd (go_append arrays s xs)) = elems arrays s @ xs"
proof (cases "len s + length xs \<le> cap s")
  case False
  then have "cap s < len s + length xs" by simp
  then show ?thesis
    using length_elems [OF assms] by (simp add: go_append_new_array elems_def)
next
  case True
  note inplace = go_append_in_place [OF True]
  show ?thesis
  proof (cases "cap s = 0")
    case True
    with \<open>len s + length xs \<le> cap s\<close> have "len s = 0" "xs = []" by simp_all
    then show ?thesis by (simp add: go_append_def elems_def)
  next
    case False
    with assms have v: "array s < length arrays" "offset s + cap s \<le> length (arrays ! array s)"
      by (simp_all add: wf_slice_def)
    let ?a = "arrays ! array s"
    from v(2) True have le: "offset s + len s \<le> length ?a" by simp
    have "drop (offset s) (take (offset s + len s) ?a @ xs @ drop (offset s + len s + length xs) ?a)
        = take (len s) (drop (offset s) ?a) @ xs @ drop (offset s + len s + length xs) ?a"
      using le by (simp add: drop_take)
    moreover have "length (take (len s) (drop (offset s) ?a)) = len s"
      using le by simp
    ultimately have "take (len s + length xs)
        (drop (offset s) (take (offset s + len s) ?a @ xs @ drop (offset s + len s + length xs) ?a))
        = take (len s) (drop (offset s) ?a) @ xs"
      by simp
    with v(1) show ?thesis by (simp add: inplace elems_def)
  qed
qed

lemma wf_go_append:
  assumes "wf_slice arrays s"
  shows "wf_slice (fst (go_append arrays s xs)) (snd (go_append arrays s xs))"
proof (cases "len s + length xs \<le> cap s")
  case False
  then have "cap s < len s + length xs" by simp
  then show ?thesis
    using length_elems [OF assms] by (simp add: go_append_new_array wf_slice_def)
next
  case True
  note inplace = go_append_in_place [OF True]
  show ?thesis
  proof (cases "cap s = 0")
    case True
    then show ?thesis using \<open>len s + length xs \<le> cap s\<close> by (simp add: go_append_def wf_slice_def)
  next
    case False
    with assms have v: "array s < length arrays" "offset s + cap s \<le> length (arrays ! array s)"
      by (simp_all add: wf_slice_def)
    from v(2) True have "offset s + len s + length xs \<le> length (arrays ! array s)" by simp
    then have "length (take (offset s + len s) (arrays ! array s) @ xs
        @ drop (offset s + len s + length xs) (arrays ! array s)) = length (arrays ! array s)"
      by (rule length_written)
    with v True show ?thesis by (simp add: inplace wf_slice_def)
  qed
qed

lemma wf_slice_go_append_other:
  assumes "wf_slice arrays s" and "wf_slice arrays r"
  shows "wf_slice (fst (go_append arrays s xs)) r"
proof (cases "len s + length xs \<le> cap s")
  case False
  then have "cap s < len s + length xs" by simp
  then show ?thesis
    using assms(2) by (auto simp: go_append_new_array wf_slice_def nth_append)
next
  case True
  note inplace = go_append_in_place [OF True]
  show ?thesis
  proof (cases "cap s = 0")
    case True
    with \<open>len s + length xs \<le> cap s\<close> have "xs = []" "len s = 0" by simp_all
    with True have "fst (go_append arrays s xs) = arrays"
      by (simp add: go_append_def)
    with assms(2) show ?thesis by simp
  next
    case False
    with assms(1) have v: "array s < length arrays" "offset s + cap s \<le> length (arrays ! array s)"
      by (simp_all add: wf_slice_def)
    from v(2) True have "offset s + len s + length xs \<le> length (arrays ! array s)" by simp
    then have len: "length (take (offset s + len s) (arrays ! array s) @ xs
        @ drop (offset s + len s + length xs) (arrays ! array s)) = length (arrays ! array s)"
      by (rule length_written)
    show ?thesis
    proof (cases "array r = array s")
      case True
      with assms(2) v(1) len show ?thesis by (simp add: inplace wf_slice_def)
    next
      case False
      with assms(2) show ?thesis by (simp add: inplace wf_slice_def)
    qed
  qed
qed

lemma elems_go_append_other:
  assumes "wf_slice arrays s" and "wf_slice arrays r" and "\<not> spareOverlaps s r"
  shows "elems (fst (go_append arrays s xs)) r = elems arrays r"
proof (cases "len r = 0")
  case True
  then show ?thesis by (simp add: elems_nil)
next
  case nonempty: False
  with assms(2) have r: "array r < length arrays" "offset r + len r \<le> length (arrays ! array r)"
    by (auto simp: wf_slice_def)
  show ?thesis
  proof (cases "len s + length xs \<le> cap s")
    case False
    then have "cap s < len s + length xs" by simp
    then show ?thesis
      using r(1) by (simp add: go_append_new_array elems_def nth_append)
  next
    case True
    note inplace = go_append_in_place [OF True]
    show ?thesis
    proof (cases "xs = [] \<or> array r \<noteq> array s")
      case True
      then show ?thesis
      proof
        assume "xs = []"
        then have "fst (go_append arrays s xs) = arrays"
          using \<open>len s + length xs \<le> cap s\<close> by (simp add: go_append_def)
        then show ?thesis by simp
      next
        assume "array r \<noteq> array s"
        then show ?thesis by (simp add: inplace elems_def)
      qed
    next
      case False
      then have same: "array r = array s" and xs: "xs \<noteq> []" by simp_all
      from xs True have spare: "len s < cap s" by (cases xs) simp_all
      then have "cap s \<noteq> 0" by simp
      with assms(1) have v: "array s < length arrays"
          "offset s + cap s \<le> length (arrays ! array s)"
        by (simp_all add: wf_slice_def)
      let ?a = "arrays ! array s"
      let ?i = "offset s + len s"
      from v(2) True have fits: "?i + length xs \<le> length ?a" by simp
      from assms(3) same spare nonempty
      have "offset r + len r \<le> ?i \<or> offset s + cap s \<le> offset r"
        by (auto simp: spareOverlaps_def)
      then have "take (len r) (drop (offset r) (take ?i ?a @ xs @ drop (?i + length xs) ?a))
          = take (len r) (drop (offset r) ?a)"
      proof
        assume "offset r + len r \<le> ?i"
        moreover from fits have "?i \<le> length ?a" by simp
        ultimately show ?thesis by (rule take_drop_written_before)
      next
        assume "offset s + cap s \<le> offset r"
        with True have "?i + length xs \<le> offset r" by simp
        then have "drop (offset r) (take ?i ?a @ xs @ drop (?i + length xs) ?a)
            = drop (offset r) ?a"
          using fits by (rule drop_written_after)
        then show ?thesis by (simp only:)
      qed
      with same v(1) show ?thesis by (simp add: inplace elems_def)
    qed
  qed
qed

lemma spareOverlaps_go_append:
  assumes "wf_slice arrays r" and "\<not> spareOverlaps s r"
  shows "\<not> spareOverlaps (snd (go_append arrays s xs)) r"
proof (cases "len s + length xs \<le> cap s")
  case False
  then have "cap s < len s + length xs" by simp
  then show ?thesis by (simp add: go_append_new_array spareOverlaps_def)
next
  case True
  with assms(2) show ?thesis
    by (auto simp: go_append_in_place spareOverlaps_def)
qed

lemma nth_elems:
  assumes "wf_slice arrays s" and "i < len s"
  shows "arrays ! array s ! (offset s + i) = elems arrays s ! i"
proof -
  from assms have "offset s \<le> length (arrays ! array s)"
    by (auto simp: wf_slice_def)
  with assms(2) show ?thesis by (simp add: elems_def)
qed

lemma addVolumes_mem_values:
  assumes "wf_slice arrays tsVolumes" and "wf_slice arrays volumes"
    and "\<not> spareOverlaps tsVolumes volumes" and "\<forall>i \<in> set idxs. i < len volumes"
  shows "(case addVolumes_mem eqSrc arrays volumes idxs tsVolumes of
            (err, arrays', tsVolumes') \<Rightarrow> (err, elems arrays' tsVolumes'))
           = addVolumes eqSrc (map (\<lambda>i. elems arrays volumes ! i) idxs) (elems arrays tsVolumes)"
  using assms
proof (induction idxs arbitrary: arrays tsVolumes)
  case Nil
  show ?case by simp
next
  case (Cons i idxs)
  let ?volume = "elems arrays volumes ! i"
  from Cons.prems(2,4) have cell: "arrays ! array volumes ! (offset volumes + i) = ?volume"
    by (simp add: nth_elems)
  show ?case
  proof (cases "volumeAlreadyAdded eqSrc ?volume (elems arrays tsVolumes) False")
    case (Inl err)
    then show ?thesis by (simp add: cell)
  next
    case (Inr alreadyAdded)
    show ?thesis
    proof (cases alreadyAdded)
      case True
      from Cons.prems have "(case addVolumes_mem eqSrc arrays volumes idxs tsVolumes of
            (err, arrays', tsVolumes') \<Rightarrow> (err, elems arrays' tsVolumes'))
          = addVolumes eqSrc (map (\<lambda>i. elems arrays volumes ! i) idxs) (elems arrays tsVolumes)"
        by (intro Cons.IH) simp_all
      with Inr True show ?thesis by (simp add: cell)
    next
      case False
      let ?arrays' = "fst (go_append arrays tsVolumes [?volume])"
      let ?tsVolumes' = "snd (go_append arrays tsVolumes [?volume])"
      have 1: "wf_slice ?arrays' ?tsVolumes'"
        using Cons.prems(1) by (rule wf_go_append)
      have 2: "wf_slice ?arrays' volumes"
        using Cons.prems(1,2) by (rule wf_slice_go_append_other)
      have 3: "\<not> spareOverlaps ?tsVolumes' volumes"
        using Cons.prems(2,3) by (rule spareOverlaps_go_append)
      have 4: "\<forall>i \<in> set idxs. i < len volumes"
        using Cons.prems(4) by simp
      have same: "elems ?arrays' volumes = elems arrays volumes"
        using Cons.prems(1,2,3) by (rule elems_go_append_other)
      have grown: "elems ?arrays' ?tsVolumes' = elems arrays tsVolumes @ [?volume]"
        using Cons.prems(1) by (rule elems_go_append)
      from Cons.IH [OF 1 2 3 4]
      have "(case addVolumes_mem eqSrc ?arrays' volumes idxs ?tsVolumes' of
            (err, arrays', tsVolumes') \<Rightarrow> (err, elems arrays' tsVolumes'))
          = addVolumes eqSrc (map (\<lambda>i. elems arrays volumes ! i) idxs)
              (elems arrays tsVolumes @ [?volume])"
        by (simp only: same grown)
      moreover from Inr False
      have "addVolumes_mem eqSrc arrays volumes (i # idxs) tsVolumes
          = addVolumes_mem eqSrc ?arrays' volumes idxs ?tsVolumes'"
        by (simp add: cell case_prod_beta Let_def)
      moreover from Inr False
      have "addVolumes eqSrc (map (\<lambda>i. elems arrays volumes ! i) (i # idxs)) (elems arrays tsVolumes)
          = addVolumes eqSrc (map (\<lambda>i. elems arrays volumes ! i) idxs)
              (elems arrays tsVolumes @ [?volume])"
        by simp
      ultimately show ?thesis by (simp only:)
    qed
  qed
qed

lemma addVolumes_mem_values_all:
  assumes "wf_slice arrays tsVolumes" and "wf_slice arrays volumes"
    and "\<not> spareOverlaps tsVolumes volumes"
  shows "(case addVolumes_mem eqSrc arrays volumes [0..<len volumes] tsVolumes of
            (err, arrays', tsVolumes') \<Rightarrow> (err, elems arrays' tsVolumes'))
           = addVolumes eqSrc (elems arrays volumes) (elems arrays tsVolumes)"
proof -
  have all: "map (\<lambda>i. elems arrays volumes ! i) [0..<len volumes] = elems arrays volumes"
    using length_elems [OF assms(2)] by (metis map_nth)
  have idxs: "\<forall>i \<in> set [0..<len volumes]. i < len volumes" by simp
  from addVolumes_mem_values [OF assms idxs, of eqSrc] show ?thesis
    by (simp only: all)
qed


lemma applySteps_mem_prepend_collision:
  assumes "checkStepsNotAlreadyAdded (elems (StepArrays m) (GetStepsToPrepend tm))
             (elems (StepArrays m) (Steps ts)) = Some err"
  shows "applySteps_mem m ts tm = (Some err, m, ts)"
  using assms by (simp add: applySteps_mem_def)

lemma applySteps_mem_prepended:
  assumes "checkStepsNotAlreadyAdded (elems (StepArrays m) (GetStepsToPrepend tm))
             (elems (StepArrays m) (Steps ts)) = None"
  shows "applySteps_mem m ts tm =
     (let arrays = fst (go_append (StepArrays m) (GetStepsToPrepend tm) (elems (StepArrays m) (Steps ts)));
          s = snd (go_append (StepArrays m) (GetStepsToPrepend tm) (elems (StepArrays m) (Steps ts)))
      in case checkStepsNotAlreadyAdded (elems arrays (GetStepsToAppend tm)) (elems arrays s) of
           Some err \<Rightarrow> (Some err, m\<lparr>StepArrays := arrays\<rparr>, ts\<lparr>Steps := s\<rparr>)
         | None \<Rightarrow>
             (None,
              m\<lparr>StepArrays := fst (go_append arrays s (elems arrays (GetStepsToAppend tm)))\<rparr>,
              ts\<lparr>Steps := snd (go_append arrays s (elems arrays (GetStepsToAppend tm)))\<rparr>))"
  using assms by (simp add: applySteps_mem_def Let_def case_prod_beta split: option.splits)

lemma applySteps_mem_frame:
  "VolumeArrays (fst (snd (applySteps_mem m ts tm))) = VolumeArrays m
   \<and> TaskSpec.Volumes (snd (snd (applySteps_mem m ts tm))) = TaskSpec.Volumes ts
   \<and> TaskSpec.more (snd (snd (applySteps_mem m ts tm))) = TaskSpec.more ts"
  by (simp add: applySteps_mem_def Let_def case_prod_beta split: option.splits)

lemma applySteps_mem_values:
  assumes "wf_slice (StepArrays m) (GetStepsToPrepend tm)"
    and "wf_slice (StepArrays m) (GetStepsToAppend tm)"
    and "\<not> spareOverlaps (GetStepsToPrepend tm) (GetStepsToAppend tm)"
  shows "fst (applySteps_mem m ts tm) =
           (case checkStepsNotAlreadyAdded (elems (StepArrays m) (GetStepsToPrepend tm))
                   (elems (StepArrays m) (Steps ts)) of
              Some err \<Rightarrow> Some err
            | None \<Rightarrow>
                checkStepsNotAlreadyAdded (elems (StepArrays m) (GetStepsToAppend tm))
                  (elems (StepArrays m) (GetStepsToPrepend tm) @ elems (StepArrays m) (Steps ts)))"
    and "elems (StepArrays (fst (snd (applySteps_mem m ts tm)))) (Steps (snd (snd (applySteps_mem m ts tm)))) =
           (case checkStepsNotAlreadyAdded (elems (StepArrays m) (GetStepsToPrepend tm))
                   (elems (StepArrays m) (Steps ts)) of
              Some err \<Rightarrow> elems (StepArrays m) (Steps ts)
            | None \<Rightarrow>
                (case checkStepsNotAlreadyAdded (elems (StepArrays m) (GetStepsToAppend tm))
                        (elems (StepArrays m) (GetStepsToPrepend tm) @ elems (StepArrays m) (Steps ts)) of
                   Some err \<Rightarrow>
                     elems (StepArrays m) (GetStepsToPrepend tm) @ elems (StepArrays m) (Steps ts)
                 | None \<Rightarrow>
                     elems (StepArrays m) (GetStepsToPrepend tm) @ elems (StepArrays m) (Steps ts)
                       @ elems (StepArrays m) (GetStepsToAppend tm)))"
proof -
  let ?sa = "StepArrays m"
  let ?p = "elems ?sa (GetStepsToPrepend tm)"
  let ?s = "elems ?sa (Steps ts)"
  let ?a = "elems ?sa (GetStepsToAppend tm)"
  let ?sa1 = "fst (go_append ?sa (GetStepsToPrepend tm) ?s)"
  let ?s1 = "snd (go_append ?sa (GetStepsToPrepend tm) ?s)"
  have e1: "elems ?sa1 ?s1 = ?p @ ?s"
    using assms(1) by (rule elems_go_append)
  have a1: "elems ?sa1 (GetStepsToAppend tm) = ?a"
    using assms by (rule elems_go_append_other)
  have w1: "wf_slice ?sa1 ?s1"
    using assms(1) by (rule wf_go_append)
  have e2: "elems (fst (go_append ?sa1 ?s1 ?a)) (snd (go_append ?sa1 ?s1 ?a)) = (?p @ ?s) @ ?a"
    using elems_go_append [OF w1, of ?a] by (simp only: e1)
  show "fst (applySteps_mem m ts tm) =
           (case checkStepsNotAlreadyAdded ?p ?s of
              Some err \<Rightarrow> Some err
            | None \<Rightarrow> checkStepsNotAlreadyAdded ?a (?p @ ?s))"
  proof (cases "checkStepsNotAlreadyAdded ?p ?s")
    case (Some err)
    then show ?thesis by (simp add: applySteps_mem_prepend_collision)
  next
    case None
    then show ?thesis
      by (simp add: applySteps_mem_prepended Let_def e1 a1 split: option.splits)
  qed
  show "elems (StepArrays (fst (snd (applySteps_mem m ts tm)))) (Steps (snd (snd (applySteps_mem m ts tm)))) =
           (case checkStepsNotAlreadyAdded ?p ?s of
              Some err \<Rightarrow> ?s
            | None \<Rightarrow>
                (case checkStepsNotAlreadyAdded ?a (?p @ ?s) of
                   Some err \<Rightarrow> ?p @ ?s
                 | None \<Rightarrow> ?p @ ?s @ ?a))"
  proof (cases "checkStepsNotAlreadyAdded ?p ?s")
    case (Some err)
    then show ?thesis by (simp add: applySteps_mem_prepend_collision)
  next
    case None
    show ?thesis
    proof (cases "checkStepsNotAlreadyAdded ?a (?p @ ?s)")
      case (Some err)
      with None show ?thesis
        by (simp add: applySteps_mem_prepended Let_def e1 a1)
    next
      case app: None
      with None e2 show ?thesis
        by (simp add: applySteps_mem_prepended Let_def e1 a1)
    qed
  qed
qed

lemma ApplyTaskModifier_mem_steps_error:
  assumes "fst (applySteps_mem m ts tm) = Some err"
  shows "ApplyTaskModifier_mem eqSrc m ts tm = applySteps_mem m ts tm"
  using assms by (cases "applySteps_mem m ts tm") (simp add: ApplyTaskModifier_mem_def)

lemma ApplyTaskModifier_mem_steps_pass:
  assumes "fst (applySteps_mem m ts tm) = None"
  shows "ApplyTaskModifier_mem eqSrc m ts tm =
     (fst (addVolumes_mem eqSrc (VolumeArrays m) (GetVolumes tm) [0..<len (GetVolumes tm)]
             (TaskSpec.Volumes ts)),
      (fst (snd (applySteps_mem m ts tm)))
        \<lparr>VolumeArrays :=
           fst (snd (addVolumes_mem eqSrc (VolumeArrays m) (GetVolumes tm)
                       [0..<len (GetVolumes tm)] (TaskSpec.Volumes ts)))\<rparr>,
      (snd (snd (applySteps_mem m ts tm)))
        \<lparr>TaskSpec.Volumes :=
           snd (snd (addVolumes_mem eqSrc (VolumeArrays m) (GetVolumes tm)
                       [0..<len (GetVolumes tm)] (TaskSpec.Volumes ts)))\<rparr>)"
proof -
  obtain m1 ts1 where r: "applySteps_mem m ts tm = (None, m1, ts1)"
    using assms by (cases "applySteps_mem m ts tm") simp
  from applySteps_mem_frame [of m ts tm] r
  have "VolumeArrays m1 = VolumeArrays m" "TaskSpec.Volumes ts1 = TaskSpec.Volumes ts"
    by simp_all
  with r show ?thesis
    by (simp add: ApplyTaskModifier_mem_def Let_def case_prod_beta)
qed

theorem ApplyTaskModifier_mem_values:
  assumes "wf_slice (StepArrays m) (GetStepsToPrepend tm)"
    and "wf_slice (StepArrays m) (GetStepsToAppend tm)"
    and "\<not> spareOverlaps (GetStepsToPrepend tm) (GetStepsToAppend tm)"
    and "wf_slice (VolumeArrays m) (TaskSpec.Volumes ts)"
    and "wf_slice (VolumeArrays m) (GetVolumes tm)"
    and "\<not> spareOverlaps (TaskSpec.Volumes ts) (GetVolumes tm)"
  shows "(case ApplyTaskModifier_mem eqSrc m ts tm of
            (err, m', ts') \<Rightarrow> (err, TaskSpec_values m' ts'))
           = ApplyTaskModifier eqSrc (TaskSpec_values m ts) (TaskModifier_values m tm)"
proof -
  let ?sa = "StepArrays m"
  let ?p = "elems ?sa (GetStepsToPrepend tm)"
  let ?s = "elems ?sa (Steps ts)"
  let ?a = "elems ?sa (GetStepsToAppend tm)"
  let ?vols = "elems (VolumeArrays m) (GetVolumes tm)"
  let ?tsv = "elems (VolumeArrays m) (TaskSpec.Volumes ts)"
  let ?r = "applySteps_mem m ts tm"
  note err = applySteps_mem_values(1) [OF assms(1-3), of ts]
  note steps = applySteps_mem_values(2) [OF assms(1-3), of ts]
  note frame = applySteps_mem_frame [of m ts tm]
  show ?thesis
  proof (cases "checkStepsNotAlreadyAdded ?p ?s")
    case (Some e)
    then have "?r = (Some e, m, ts)"
      by (rule applySteps_mem_prepend_collision)
    then have "ApplyTaskModifier_mem eqSrc m ts tm = (Some e, m, ts)"
      by (simp add: ApplyTaskModifier_mem_def)
    with Some show ?thesis
      by (simp add: ApplyTaskModifier_def TaskSpec_values_def TaskModifier_values_def)
  next
    case None
    show ?thesis
    proof (cases "checkStepsNotAlreadyAdded ?a (?p @ ?s)")
      case (Some e)
      with None err have e: "fst ?r = Some e" by simp
      from None Some steps
      have st: "elems (StepArrays (fst (snd ?r))) (Steps (snd (snd ?r))) = ?p @ ?s"
        by simp
      from e have "ApplyTaskModifier_mem eqSrc m ts tm = ?r"
        by (rule ApplyTaskModifier_mem_steps_error)
      then have "(case ApplyTaskModifier_mem eqSrc m ts tm of
            (err, m', ts') \<Rightarrow> (err, TaskSpec_values m' ts'))
          = (Some e, TaskSpec_values (fst (snd ?r)) (snd (snd ?r)))"
        using e by (simp add: case_prod_beta)
      also have "TaskSpec_values (fst (snd ?r)) (snd (snd ?r))
          = (TaskSpec_values m ts)\<lparr>Steps := ?p @ ?s\<rparr>"
        using frame st by (simp add: TaskSpec_values_def)
      also have "(Some e, (TaskSpec_values m ts)\<lparr>Steps := ?p @ ?s\<rparr>)
          = ApplyTaskModifier eqSrc (TaskSpec_values m ts) (TaskModifier_values m tm)"
        using None Some
        by (simp add: ApplyTaskModifier_def Let_def TaskSpec_values_def TaskModifier_values_def)
      finally show ?thesis .
    next
      case app: None
      with None err have e: "fst ?r = None" by simp
      from None app steps
      have st: "elems (StepArrays (fst (snd ?r))) (Steps (snd (snd ?r))) = ?p @ ?s @ ?a"
        by simp
      let ?v = "addVolumes_mem eqSrc (VolumeArrays m) (GetVolumes tm)
          [0..<len (GetVolumes tm)] (TaskSpec.Volumes ts)"
      from addVolumes_mem_values_all [OF assms(4-6), of eqSrc]
      have vol: "(fst ?v, elems (fst (snd ?v)) (snd (snd ?v))) = addVolumes eqSrc ?vols ?tsv"
        by (simp add: case_prod_beta)
      from e have "(case ApplyTaskModifier_mem eqSrc m ts tm of
            (err, m', ts') \<Rightarrow> (err, TaskSpec_values m' ts'))
          = (fst ?v, TaskSpec_values ((fst (snd ?r))\<lparr>VolumeArrays := fst (snd ?v)\<rparr>)
                       ((snd (snd ?r))\<lparr>TaskSpec.Volumes := snd (snd ?v)\<rparr>))"
        by (simp add: ApplyTaskModifier_mem_steps_pass)
      also have "TaskSpec_values ((fst (snd ?r))\<lparr>VolumeArrays := fst (snd ?v)\<rparr>)
                       ((snd (snd ?r))\<lparr>TaskSpec.Volumes := snd (snd ?v)\<rparr>)
          = (TaskSpec_values m ts)\<lparr>Steps := ?p @ ?s @ ?a,
               TaskSpec.Volumes := elems (fst (snd ?v)) (snd (snd ?v))\<rparr>"
        using frame st by (simp add: TaskSpec_values_def)
      also have "(fst ?v, (TaskSpec_values m ts)\<lparr>Steps := ?p @ ?s @ ?a,
               TaskSpec.Volumes := elems (fst (snd ?v)) (snd (snd ?v))\<rparr>)
          = ApplyTaskModifier eqSrc (TaskSpec_values m ts) (TaskModifier_values m tm)"
        using None app vol [symmetric]
        by (simp add: ApplyTaskModifier_def Let_def TaskSpec_values_def TaskModifier_values_def
            case_prod_beta)
      finally show ?thesis .
    qed
  qed
qed

section \<open>Calls on slices in memory\<close>


lemma go_append_cell:
  assumes "wf_slice arrays s" and "wf_slice arrays r" and "i < len r"
    and "\<not> (array r = array s \<and> offset r + i = offset s + len s)"
  shows "fst (go_append arrays s [x]) ! array r ! (offset r + i)
           = arrays ! array r ! (offset r + i)"
proof (cases "len s + 1 \<le> cap s")
  case False
  from assms(2,3) have "array r < length arrays"
    by (auto simp: wf_slice_def)
  with False show ?thesis
    by (simp add: go_append_def nth_append)
next
  case True
  let ?a = "arrays ! array s"
  let ?k = "offset s + len s"
  from True assms(1) have k: "?k < length ?a" and a: "array s < length arrays"
    by (auto simp: wf_slice_def)
  from k have written: "take ?k ?a @ [x] @ drop (?k + length [x]) ?a = ?a[?k := x]"
    by (simp add: upd_conv_take_nth_drop)
  from True have "len s + length [x] \<le> cap s" by simp
  from go_append_in_place [OF this, of arrays]
  have new: "fst (go_append arrays s [x]) = arrays[array s := ?a[?k := x]]"
    by (simp only: written fst_conv)
  show ?thesis
  proof (cases "array r = array s")
    case False
    then show ?thesis by (simp add: new)
  next
    case True
    with assms(4) have "offset r + i \<noteq> ?k" by simp
    with a True show ?thesis by (simp add: new)
  qed
qed

lemma last_cell_elems:
  assumes "wf_slice arrays s" and "0 < len s"
  shows "arrays ! array s ! (offset s + len s - 1) \<in> set (elems arrays s)"
proof -
  from assms(2) have i: "len s - 1 < len s" by simp
  from nth_elems [OF assms(1) i] assms(2)
  have "arrays ! array s ! (offset s + len s - 1) = elems arrays s ! (len s - 1)"
    by simp
  moreover from i length_elems [OF assms(1)]
  have "elems arrays s ! (len s - 1) \<in> set (elems arrays s)"
    by simp
  ultimately show ?thesis by simp
qed

lemma addVolumes_mem_fresh_then_conflict:
  assumes "wf_slice arrays tsVolumes" and "wf_slice arrays volumes"
    and "elems arrays volumes = [v1, v2]"
    and "Volume.Name v1 \<notin> volumeNames (elems arrays tsVolumes)"
    and "v \<in> set (elems arrays tsVolumes)"
    and "Volume.Name v2 = Volume.Name v" and "\<not> cmpEqual eqSrc v2 v"
  shows "fst (addVolumes_mem eqSrc arrays volumes [0..<len volumes] tsVolumes)
           = Some (ConflictingVolume (Volume.Name v2))"
    and "elems (fst (snd (addVolumes_mem eqSrc arrays volumes [0..<len volumes] tsVolumes)))
           (snd (snd (addVolumes_mem eqSrc arrays volumes [0..<len volumes] tsVolumes)))
           = elems arrays tsVolumes @ [v1]"
proof -
  let ?tsv = "elems arrays tsVolumes"
  let ?g = "go_append arrays tsVolumes [v1]"
  from length_elems [OF assms(2)] assms(3) have n: "len volumes = 2" by simp
  then have idxs: "[0..<len volumes] = [0, 1]"
    by (simp add: upt_rec)
  from nth_elems [OF assms(2), of 0] n assms(3)
  have cell0: "arrays ! array volumes ! offset volumes = v1" by simp
  from nth_elems [OF assms(2), of 1] n assms(3)
  have cell1: "arrays ! array volumes ! (offset volumes + 1) = v2" by simp
  from assms(4) have "\<not> (\<exists>u \<in> set ?tsv. Volume.Name u = Volume.Name v1
      \<and> \<not> cmpEqual eqSrc v1 u)"
    by (auto simp: image_iff)
  with assms(4) have first: "volumeAlreadyAdded eqSrc v1 ?tsv False = Inr False"
    by (simp only: volumeAlreadyAdded_eq if_False simp_thms)
  have tsv': "elems (fst ?g) (snd ?g) = ?tsv @ [v1]"
    by (rule elems_go_append [OF assms(1)])
  have kept: "fst ?g ! array volumes ! (offset volumes + 1) = v2"
  proof -
    have "\<not> (array volumes = array tsVolumes
        \<and> offset volumes + 1 = offset tsVolumes + len tsVolumes)"
    proof
      assume same: "array volumes = array tsVolumes
        \<and> offset volumes + 1 = offset tsVolumes + len tsVolumes"
      from assms(5) length_elems [OF assms(1)] have pos: "0 < len tsVolumes"
        by (cases "len tsVolumes = 0") auto
      from same have "offset tsVolumes + len tsVolumes - 1 = offset volumes"
        by arith
      with same have "arrays ! array tsVolumes ! (offset tsVolumes + len tsVolumes - 1)
          = arrays ! array volumes ! offset volumes"
        by (simp only:)
      with last_cell_elems [OF assms(1) pos] cell0 have "v1 \<in> set ?tsv" by simp
      then have "Volume.Name v1 \<in> volumeNames ?tsv" by (rule imageI)
      with assms(4) show False by simp
    qed
    from go_append_cell [OF assms(1,2) _ this, of v1] n cell1 show ?thesis by simp
  qed
  from assms(5) have "v \<in> set (?tsv @ [v1])" by simp
  with assms(6,7) have "\<exists>u \<in> set (?tsv @ [v1]).
      Volume.Name u = Volume.Name v2 \<and> \<not> cmpEqual eqSrc v2 u"
    by (intro bexI [of _ v]) simp_all
  then have second: "volumeAlreadyAdded eqSrc v2 (?tsv @ [v1]) False
      = Inl (ConflictingVolume (Volume.Name v2))"
    by (simp only: volumeAlreadyAdded_eq if_True)
  have run: "addVolumes_mem eqSrc arrays volumes [0..<len volumes] tsVolumes
      = (Some (ConflictingVolume (Volume.Name v2)), fst ?g, snd ?g)"
  proof -
    from kept have "fst ?g ! array volumes ! Suc (offset volumes) = v2" by simp
    then show ?thesis
      unfolding idxs
      by (simp add: cell0 first case_prod_beta Let_def tsv' second)
  qed
  from run show "fst (addVolumes_mem eqSrc arrays volumes [0..<len volumes] tsVolumes)
      = Some (ConflictingVolume (Volume.Name v2))"
    by simp
  from run tsv' show "elems (fst (snd (addVolumes_mem eqSrc arrays volumes
      [0..<len volumes] tsVolumes)))
      (snd (snd (addVolumes_mem eqSrc arrays volumes [0..<len volumes] tsVolumes)))
      = elems arrays tsVolumes @ [v1]"
    by simp
qed

section \<open>Claims\<close>

subsection \<open>C1\<close>




subsection \<open>C2\<close>



subsection \<open>C3\<close>

text \<open>
  C3, as amended. Both step validations pass, and the volumes of the modifier lie in no
  cell of the spare capacity of \<^verbatim>\<open>spec.Volumes\<close>, the cells that
  \<^verbatim>\<open>append(ts.Volumes, volume)\<close> at line 163 writes when the capacity suffices. When the
  modifier contributes a volume with the name of an existing volume from which it
  differs under the comparison of \<^verbatim>\<open>cmp.Diff\<close>, the call returns a conflicting-volume
  error that names a contributed volume differing in this way from an existing or another
  contributed volume of its name; it is the error for the given volume when that volume
  is the first one contributed. No volume of that name is added: the entries of
  \<^verbatim>\<open>spec.Volumes\<close> with the name are those present before the call, in their order, so a
  name with one entry keeps exactly that entry. Starting from no volumes, adding
  \<open>creds\<close> with contents \<open>X\<close> succeeds, and a second call adding \<open>creds\<close> with
  contents \<open>Y\<close> returns the error and leaves the volumes as they were.
\<close>

theorem C3_conflicting_volume_rejected:
  assumes "fst (applySteps_mem m ts tm) = None"
    and "wf_slice (VolumeArrays m) (TaskSpec.Volumes ts)"
    and "wf_slice (VolumeArrays m) (GetVolumes tm)"
    and "\<not> spareOverlaps (TaskSpec.Volumes ts) (GetVolumes tm)"
    and "volume \<in> set (volumesAt m (GetVolumes tm))"
    and "v \<in> set (volumesAt m (TaskSpec.Volumes ts))"
    and "Volume.Name volume = Volume.Name v" and "\<not> cmpEqual eqSrc volume v"
  shows "case ApplyTaskModifier_mem eqSrc m ts tm of
           (err, m', ts') \<Rightarrow>
             (\<exists>w \<in> set (volumesAt m (GetVolumes tm)).
                err = Some (ConflictingVolume (Volume.Name w))
                \<and> (\<exists>u \<in> set (volumesAt m (TaskSpec.Volumes ts))
                            \<union> set (volumesAt m (GetVolumes tm)).
                      Volume.Name u = Volume.Name w \<and> \<not> cmpEqual eqSrc w u))
             \<and> filter (\<lambda>u. Volume.Name u = Volume.Name v) (volumesAt m' (TaskSpec.Volumes ts'))
                 = filter (\<lambda>u. Volume.Name u = Volume.Name v) (volumesAt m (TaskSpec.Volumes ts))
             \<and> (volumesAt m (GetVolumes tm) = volume # rest \<longrightarrow>
                  err = Some (ConflictingVolume (Volume.Name volume))
                  \<and> volumesAt m' (TaskSpec.Volumes ts') = volumesAt m (TaskSpec.Volumes ts))"
proof -
  let ?vols = "volumesAt m (GetVolumes tm)"
  let ?tsv = "volumesAt m (TaskSpec.Volumes ts)"
  let ?r = "addVolumes_mem eqSrc (VolumeArrays m) (GetVolumes tm) [0..<len (GetVolumes tm)]
      (TaskSpec.Volumes ts)"
  let ?err = "fst ?r"
  let ?tsv' = "elems (fst (snd ?r)) (snd (snd ?r))"
  from addVolumes_mem_values_all [OF assms(2-4), of eqSrc]
  have vals: "addVolumes eqSrc ?vols ?tsv = (?err, ?tsv')"
    by (simp add: case_prod_beta)
  from addVolumes_conflict_exists [OF assms(5-8)] vals
  obtain err where err: "?err = Some err"
    by (cases ?err) simp_all
  with vals have "fst (addVolumes eqSrc ?vols ?tsv) = Some err" by simp
  from addVolumes_Some [OF this] err
  have c1: "\<exists>w \<in> set ?vols. ?err = Some (ConflictingVolume (Volume.Name w))
      \<and> (\<exists>u \<in> set ?tsv \<union> set ?vols. Volume.Name u = Volume.Name w \<and> \<not> cmpEqual eqSrc w u)"
    by simp
  from assms(6) have "Volume.Name v \<in> volumeNames ?tsv"
    by (rule imageI)
  from addVolumes_keeps_named [OF this, of eqSrc ?vols] vals
  have c2: "filter (\<lambda>u. Volume.Name u = Volume.Name v) ?tsv'
      = filter (\<lambda>u. Volume.Name u = Volume.Name v) ?tsv"
    by simp
  have c3: "?err = Some (ConflictingVolume (Volume.Name volume)) \<and> ?tsv' = ?tsv"
    if first: "?vols = volume # rest"
  proof -
    from assms(7) have "Volume.Name v = Volume.Name volume" by (rule sym)
    with assms(6,8) have "\<exists>u \<in> set ?tsv.
        Volume.Name u = Volume.Name volume \<and> \<not> cmpEqual eqSrc volume u"
      by (intro bexI [of _ v] conjI)
    from addVolumes_conflict [OF this, of rest] vals first show ?thesis
      by simp
  qed
  from c3 have c3': "?vols = volume # rest \<longrightarrow>
      ?err = Some (ConflictingVolume (Volume.Name volume)) \<and> ?tsv' = ?tsv"
    by (rule impI)
  from c1 c2 c3' show ?thesis
    unfolding ApplyTaskModifier_mem_steps_pass [OF assms(1), of eqSrc]
    by simp
qed

theorem C3_witness:
  "ApplyTaskModifier_mem (=)
     \<lparr>StepArrays = ([] :: Step list list),
      VolumeArrays = [[\<lparr>Volume.Name = ''creds'', VolumeSource = ''X''\<rparr>],
                      [\<lparr>Volume.Name = ''creds'', VolumeSource = ''Y''\<rparr>]]\<rparr>
     \<lparr>Steps = \<lparr>array = 0, offset = 0, len = 0, cap = 0\<rparr>,
      TaskSpec.Volumes = \<lparr>array = 0, offset = 0, len = 0, cap = 0\<rparr>\<rparr>
     \<lparr>GetStepsToPrepend = \<lparr>array = 0, offset = 0, len = 0, cap = 0\<rparr>,
      GetStepsToAppend = \<lparr>array = 0, offset = 0, len = 0, cap = 0\<rparr>,
      GetVolumes = \<lparr>array = 0, offset = 0, len = 1, cap = 1\<rparr>\<rparr>
   = (None,
      \<lparr>StepArrays = [],
       VolumeArrays = [[\<lparr>Volume.Name = ''creds'', VolumeSource = ''X''\<rparr>],
                       [\<lparr>Volume.Name = ''creds'', VolumeSource = ''Y''\<rparr>],
                       [\<lparr>Volume.Name = ''creds'', VolumeSource = ''X''\<rparr>]]\<rparr>,
      \<lparr>Steps = \<lparr>array = 0, offset = 0, len = 0, cap = 0\<rparr>,
       TaskSpec.Volumes = \<lparr>array = 2, offset = 0, len = 1, cap = 1\<rparr>\<rparr>)
   \<and> (case ApplyTaskModifier_mem (=)
           \<lparr>StepArrays = ([] :: Step list list),
            VolumeArrays = [[\<lparr>Volume.Name = ''creds'', VolumeSource = ''X''\<rparr>],
                            [\<lparr>Volume.Name = ''creds'', VolumeSource = ''Y''\<rparr>],
                            [\<lparr>Volume.Name = ''creds'', VolumeSource = ''X''\<rparr>]]\<rparr>
           \<lparr>Steps = \<lparr>array = 0, offset = 0, len = 0, cap = 0\<rparr>,
            TaskSpec.Volumes = \<lparr>array = 2, offset = 0, len = 1, cap = 1\<rparr>\<rparr>
           \<lparr>GetStepsToPrepend = \<lparr>array = 0, offset = 0, len = 0, cap = 0\<rparr>,
            GetStepsToAppend = \<lparr>array = 0, offset = 0, len = 0, cap = 0\<rparr>,
            GetVolumes = \<lparr>array = 1, offset = 0, len = 1, cap = 1\<rparr>\<rparr> of
        (err, m', ts') \<Rightarrow>
          err = Some (ConflictingVolume ''creds'')
          \<and> volumesAt m' (TaskSpec.Volumes ts')
              = [\<lparr>Volume.Name = ''creds'', VolumeSource = ''X''\<rparr>])"
proof -
  let ?v = "\<lparr>Volume.Name = ''creds'', VolumeSource = ''X''\<rparr>"
  let ?volume = "\<lparr>Volume.Name = ''creds'', VolumeSource = ''Y''\<rparr>"
  let ?m = "\<lparr>StepArrays = ([] :: Step list list), VolumeArrays = [[?v], [?volume], [?v]]\<rparr>"
  let ?ts = "\<lparr>Steps = \<lparr>array = 0, offset = 0, len = 0, cap = 0\<rparr>,
            TaskSpec.Volumes = \<lparr>array = 2, offset = 0, len = 1, cap = 1\<rparr>\<rparr>"
  let ?tm = "\<lparr>GetStepsToPrepend = \<lparr>array = 0, offset = 0, len = 0, cap = 0\<rparr>,
            GetStepsToAppend = \<lparr>array = 0, offset = 0, len = 0, cap = 0\<rparr>,
            GetVolumes = \<lparr>array = 1, offset = 0, len = 1, cap = 1\<rparr>\<rparr>"
  let ?r = "ApplyTaskModifier_mem (=) ?m ?ts ?tm"
  have tsv: "volumesAt ?m (TaskSpec.Volumes ?ts) = [?v]"
    by (simp add: elems_def)
  have vols: "volumesAt ?m (GetVolumes ?tm) = [?volume]"
    by (simp add: elems_def)
  have h1: "fst (applySteps_mem ?m ?ts ?tm) = None"
    by (simp add: applySteps_mem_def go_append_def elems_def Let_def)
  have h2: "wf_slice (VolumeArrays ?m) (TaskSpec.Volumes ?ts)"
    by (simp add: wf_slice_def)
  have h3: "wf_slice (VolumeArrays ?m) (GetVolumes ?tm)"
    by (simp add: wf_slice_def)
  have h4: "\<not> spareOverlaps (TaskSpec.Volumes ?ts) (GetVolumes ?tm)"
    by (simp add: spareOverlaps_def)
  have h5: "?volume \<in> set (volumesAt ?m (GetVolumes ?tm))"
    unfolding vols by simp
  have h6: "?v \<in> set (volumesAt ?m (TaskSpec.Volumes ?ts))"
    unfolding tsv by simp
  have h7: "Volume.Name ?volume = Volume.Name ?v" by simp
  have h8: "\<not> cmpEqual (=) ?volume ?v" by (simp add: cmpEqual_def)
  have "volumesAt ?m (GetVolumes ?tm) = ?volume # []
      \<longrightarrow> fst ?r = Some (ConflictingVolume (Volume.Name ?volume))
        \<and> volumesAt (fst (snd ?r)) (TaskSpec.Volumes (snd (snd ?r)))
            = volumesAt ?m (TaskSpec.Volumes ?ts)"
    using C3_conflicting_volume_rejected [OF h1 h2 h3 h4 h5 h6 h7 h8, of "[]"]
    unfolding case_prod_beta by (elim conjE)
  with vols have "fst ?r = Some (ConflictingVolume (Volume.Name ?volume))
      \<and> volumesAt (fst (snd ?r)) (TaskSpec.Volumes (snd (snd ?r)))
          = volumesAt ?m (TaskSpec.Volumes ?ts)"
    by (simp only: simp_thms)
  then have second: "fst ?r = Some (ConflictingVolume ''creds'')
      \<and> volumesAt (fst (snd ?r)) (TaskSpec.Volumes (snd (snd ?r))) = [?v]"
    unfolding tsv by simp
  have first: "ApplyTaskModifier_mem (=)
     \<lparr>StepArrays = ([] :: Step list list), VolumeArrays = [[?v], [?volume]]\<rparr>
     \<lparr>Steps = \<lparr>array = 0, offset = 0, len = 0, cap = 0\<rparr>,
      TaskSpec.Volumes = \<lparr>array = 0, offset = 0, len = 0, cap = 0\<rparr>\<rparr>
     \<lparr>GetStepsToPrepend = \<lparr>array = 0, offset = 0, len = 0, cap = 0\<rparr>,
      GetStepsToAppend = \<lparr>array = 0, offset = 0, len = 0, cap = 0\<rparr>,
      GetVolumes = \<lparr>array = 0, offset = 0, len = 1, cap = 1\<rparr>\<rparr>
   = (None, ?m, ?ts)"
    by (simp add: ApplyTaskModifier_mem_def applySteps_mem_def go_append_def elems_def
        cmpEqual_def Let_def)
  from first second show ?thesis
    unfolding case_prod_beta by (intro conjI) simp_all
qed

text \<open>
  C3 as stated covers every modifier that contributes such a volume and every task
  specification, and takes a volume to conflict when its contents are different. Five
  inputs where it fails. A modifier that also prepends a step named like an existing step
  is stopped by the prepend validation, the error is a duplicate-step-name error and the
  volume loop is never reached. A modifier that first contributes two volumes named
  \<open>cache\<close> with different contents gets the error for \<open>cache\<close>, not for \<open>creds\<close>, and the
  first \<open>cache\<close> stays appended. A specification that came with two volumes named
  \<open>creds\<close> keeps both. With volume sources that are quantities, the existing volume
  \<open>scratch\<close> of quantity \<open>1\<close> and the contributed volume \<open>scratch\<close> of quantity \<open>1000m\<close>
  are different values, \<^verbatim>\<open>cmp.Diff\<close> compares the quantities with their \<^verbatim>\<open>Equal\<close> method
  and reports no difference, and the call returns no error. And with the modifier's
  volumes \<open>arr[0:3]\<close> and \<^verbatim>\<open>spec.Volumes\<close> \<open>arr[1:2]\<close> of capacity 2 in one array
  \<open>[cache/Z, creds/X, creds/Y]\<close>, the append of \<open>cache/Z\<close> writes over \<open>creds/Y\<close> before
  the loop reads it, and the call returns no error.
\<close>

theorem C3_counterexample:
  "ApplyTaskModifier (=)
     \<lparr>Steps = [\<lparr>Step.Name = ''A''\<rparr>],
      TaskSpec.Volumes = [\<lparr>Volume.Name = ''creds'', VolumeSource = ''X''\<rparr>]\<rparr>
     \<lparr>GetStepsToPrepend = [\<lparr>Step.Name = ''A''\<rparr>],
      GetStepsToAppend = [],
      GetVolumes = [\<lparr>Volume.Name = ''creds'', VolumeSource = ''Y''\<rparr>]\<rparr>
   = (Some (DuplicateStepName ''A''),
      \<lparr>Steps = [\<lparr>Step.Name = ''A''\<rparr>],
       TaskSpec.Volumes = [\<lparr>Volume.Name = ''creds'', VolumeSource = ''X''\<rparr>]\<rparr>)
   \<and> ApplyTaskModifier (=)
     \<lparr>Steps = ([] :: Step list),
      TaskSpec.Volumes = [\<lparr>Volume.Name = ''creds'', VolumeSource = ''X''\<rparr>]\<rparr>
     \<lparr>GetStepsToPrepend = [], GetStepsToAppend = [],
      GetVolumes = [\<lparr>Volume.Name = ''cache'', VolumeSource = ''P''\<rparr>,
                    \<lparr>Volume.Name = ''cache'', VolumeSource = ''Q''\<rparr>,
                    \<lparr>Volume.Name = ''creds'', VolumeSource = ''Y''\<rparr>]\<rparr>
   = (Some (ConflictingVolume ''cache''),
      \<lparr>Steps = [],
       TaskSpec.Volumes = [\<lparr>Volume.Name = ''creds'', VolumeSource = ''X''\<rparr>,
                           \<lparr>Volume.Name = ''cache'', VolumeSource = ''P''\<rparr>]\<rparr>)
   \<and> ApplyTaskModifier (=)
     \<lparr>Steps = ([] :: Step list),
      TaskSpec.Volumes = [\<lparr>Volume.Name = ''creds'', VolumeSource = ''X''\<rparr>,
                          \<lparr>Volume.Name = ''creds'', VolumeSource = ''Z''\<rparr>]\<rparr>
     \<lparr>GetStepsToPrepend = [], GetStepsToAppend = [],
      GetVolumes = [\<lparr>Volume.Name = ''creds'', VolumeSource = ''Y''\<rparr>]\<rparr>
   = (Some (ConflictingVolume ''creds''),
      \<lparr>Steps = [],
       TaskSpec.Volumes = [\<lparr>Volume.Name = ''creds'', VolumeSource = ''X''\<rparr>,
                           \<lparr>Volume.Name = ''creds'', VolumeSource = ''Z''\<rparr>]\<rparr>)
   \<and> \<lparr>Volume.Name = ''scratch'', VolumeSource = \<lparr>unscaled = 1000, scale = - 3\<rparr>\<rparr>
       \<noteq> \<lparr>Volume.Name = ''scratch'', VolumeSource = \<lparr>unscaled = 1, scale = 0\<rparr>\<rparr>
   \<and> ApplyTaskModifier Quantity_Equal
     \<lparr>Steps = ([] :: Step list),
      TaskSpec.Volumes = [\<lparr>Volume.Name = ''scratch'',
                           VolumeSource = \<lparr>unscaled = 1, scale = 0\<rparr>\<rparr>]\<rparr>
     \<lparr>GetStepsToPrepend = [], GetStepsToAppend = [],
      GetVolumes = [\<lparr>Volume.Name = ''scratch'',
                     VolumeSource = \<lparr>unscaled = 1000, scale = - 3\<rparr>\<rparr>]\<rparr>
   = (None,
      \<lparr>Steps = [],
       TaskSpec.Volumes = [\<lparr>Volume.Name = ''scratch'',
                            VolumeSource = \<lparr>unscaled = 1, scale = 0\<rparr>\<rparr>]\<rparr>)
   \<and> TaskSpec_values
        \<lparr>StepArrays = ([] :: Step list list),
         VolumeArrays = [[\<lparr>Volume.Name = ''cache'', VolumeSource = ''Z''\<rparr>,
                          \<lparr>Volume.Name = ''creds'', VolumeSource = ''X''\<rparr>,
                          \<lparr>Volume.Name = ''creds'', VolumeSource = ''Y''\<rparr>]]\<rparr>
        \<lparr>Steps = \<lparr>array = 0, offset = 0, len = 0, cap = 0\<rparr>,
         TaskSpec.Volumes = \<lparr>array = 0, offset = 1, len = 1, cap = 2\<rparr>\<rparr>
      = \<lparr>Steps = [], TaskSpec.Volumes = [\<lparr>Volume.Name = ''creds'', VolumeSource = ''X''\<rparr>]\<rparr>
   \<and> TaskModifier_values
        \<lparr>StepArrays = ([] :: Step list list),
         VolumeArrays = [[\<lparr>Volume.Name = ''cache'', VolumeSource = ''Z''\<rparr>,
                          \<lparr>Volume.Name = ''creds'', VolumeSource = ''X''\<rparr>,
                          \<lparr>Volume.Name = ''creds'', VolumeSource = ''Y''\<rparr>]]\<rparr>
        \<lparr>GetStepsToPrepend = \<lparr>array = 0, offset = 0, len = 0, cap = 0\<rparr>,
         GetStepsToAppend = \<lparr>array = 0, offset = 0, len = 0, cap = 0\<rparr>,
         GetVolumes = \<lparr>array = 0, offset = 0, len = 3, cap = 3\<rparr>\<rparr>
      = \<lparr>GetStepsToPrepend = [], GetStepsToAppend = [],
         GetVolumes = [\<lparr>Volume.Name = ''cache'', VolumeSource = ''Z''\<rparr>,
                       \<lparr>Volume.Name = ''creds'', VolumeSource = ''X''\<rparr>,
                       \<lparr>Volume.Name = ''creds'', VolumeSource = ''Y''\<rparr>]\<rparr>
   \<and> (case ApplyTaskModifier_mem (=)
        \<lparr>StepArrays = ([] :: Step list list),
         VolumeArrays = [[\<lparr>Volume.Name = ''cache'', VolumeSource = ''Z''\<rparr>,
                          \<lparr>Volume.Name = ''creds'', VolumeSource = ''X''\<rparr>,
                          \<lparr>Volume.Name = ''creds'', VolumeSource = ''Y''\<rparr>]]\<rparr>
        \<lparr>Steps = \<lparr>array = 0, offset = 0, len = 0, cap = 0\<rparr>,
         TaskSpec.Volumes = \<lparr>array = 0, offset = 1, len = 1, cap = 2\<rparr>\<rparr>
        \<lparr>GetStepsToPrepend = \<lparr>array = 0, offset = 0, len = 0, cap = 0\<rparr>,
         GetStepsToAppend = \<lparr>array = 0, offset = 0, len = 0, cap = 0\<rparr>,
         GetVolumes = \<lparr>array = 0, offset = 0, len = 3, cap = 3\<rparr>\<rparr> of
      (err, m', ts') \<Rightarrow>
        (err, TaskSpec_values m' ts')
          = (None,
             \<lparr>Steps = [],
              TaskSpec.Volumes = [\<lparr>Volume.Name = ''creds'', VolumeSource = ''X''\<rparr>,
                                  \<lparr>Volume.Name = ''cache'', VolumeSource = ''Z''\<rparr>]\<rparr>))"
  by (simp add: ApplyTaskModifier_def ApplyTaskModifier_mem_def applySteps_mem_def
      go_append_def elems_def TaskSpec_values_def TaskModifier_values_def cmpEqual_def
      Quantity_Equal_def upt_rec Let_def)

subsection \<open>C4\<close>




subsection \<open>C5\<close>

text \<open>
  C5. When a step of the prepend group has the name of a step already in
  \<^verbatim>\<open>spec.Steps\<close>, \<^verbatim>\<open>ApplyTaskModifier\<close> returns a duplicate-step-name error, for a name
  that the prepend group and the existing steps share, and the task specification is what
  it was before the call: no step is inserted and no volume is merged.
\<close>

theorem C5_prepend_collision_leaves_spec_unchanged:
  assumes "s \<in> set (GetStepsToPrepend tm)" and "step \<in> set (Steps ts)"
    and "Step.Name s = Step.Name step"
  shows "\<exists>n \<in> stepNames (GetStepsToPrepend tm) \<inter> stepNames (Steps ts).
           ApplyTaskModifier eqSrc ts tm = (Some (DuplicateStepName n), ts)"
proof -
  from assms have "stepNames (GetStepsToPrepend tm) \<inter> stepNames (Steps ts) \<noteq> {}"
    by force
  from ApplyTaskModifier_prepend_collision [OF this] show ?thesis
    by blast
qed

theorem C5_witness:
  "\<lparr>Step.Name = ''B''\<rparr> \<in> set (GetStepsToPrepend
       \<lparr>GetStepsToPrepend = [\<lparr>Step.Name = ''X''\<rparr>, \<lparr>Step.Name = ''B''\<rparr>],
        GetStepsToAppend = [\<lparr>Step.Name = ''Y''\<rparr>],
        GetVolumes = [\<lparr>Volume.Name = ''creds'', VolumeSource = ''X''\<rparr>]\<rparr>)
   \<and> \<lparr>Step.Name = ''B''\<rparr> \<in> set (Steps
       \<lparr>Steps = [\<lparr>Step.Name = ''A''\<rparr>, \<lparr>Step.Name = ''B''\<rparr>],
        TaskSpec.Volumes = []\<rparr>)
   \<and> ApplyTaskModifier (=)
        \<lparr>Steps = [\<lparr>Step.Name = ''A''\<rparr>, \<lparr>Step.Name = ''B''\<rparr>], TaskSpec.Volumes = []\<rparr>
        \<lparr>GetStepsToPrepend = [\<lparr>Step.Name = ''X''\<rparr>, \<lparr>Step.Name = ''B''\<rparr>],
         GetStepsToAppend = [\<lparr>Step.Name = ''Y''\<rparr>],
         GetVolumes = [\<lparr>Volume.Name = ''creds'', VolumeSource = ''X''\<rparr>]\<rparr>
      = (Some (DuplicateStepName ''B''),
         \<lparr>Steps = [\<lparr>Step.Name = ''A''\<rparr>, \<lparr>Step.Name = ''B''\<rparr>], TaskSpec.Volumes = []\<rparr>)"
  using C5_prepend_collision_leaves_spec_unchanged
    [of "\<lparr>Step.Name = ''B''\<rparr>"
        "\<lparr>GetStepsToPrepend = [\<lparr>Step.Name = ''X''\<rparr>, \<lparr>Step.Name = ''B''\<rparr>],
          GetStepsToAppend = [\<lparr>Step.Name = ''Y''\<rparr>],
          GetVolumes = [\<lparr>Volume.Name = ''creds'', VolumeSource = ''X''\<rparr>]\<rparr>"
        "\<lparr>Step.Name = ''B''\<rparr>"
        "\<lparr>Steps = [\<lparr>Step.Name = ''A''\<rparr>, \<lparr>Step.Name = ''B''\<rparr>], TaskSpec.Volumes = []\<rparr>"
        "(=)"]
  by simp

subsection \<open>C6\<close>



subsection \<open>C7\<close>

text \<open>
  C7. The resource types legal as task outputs are exactly \<open>storage\<close> and \<open>git\<close>:
  these are the keys of \<^verbatim>\<open>AllowedOutputResources\<close>, both with the value true. The valid
  resource types are exactly \<open>git\<close>, \<open>storage\<close>, \<open>image\<close>, \<open>cluster\<close>,
  \<open>pullRequest\<close> and \<open>cloudEvent\<close>, the elements of \<^verbatim>\<open>AllResourceTypes\<close>. The output
  test is false for \<open>image\<close> and true for \<open>git\<close>, and the test of the full
  enumeration is false for every other string, such as \<open>bogus\<close>.
\<close>

theorem C7_resource_type_registry:
  "{t. AllowedOutputResources t = Some True} = {''storage'', ''git''}
   \<and> dom AllowedOutputResources = {''storage'', ''git''}
   \<and> set AllResourceTypes = {''git'', ''storage'', ''image'', ''cluster'', ''pullRequest'', ''cloudEvent''}
   \<and> {t. IsValidOutputType t} = {''storage'', ''git''}
   \<and> {t. IsValidType t} = {''git'', ''storage'', ''image'', ''cluster'', ''pullRequest'', ''cloudEvent''}
   \<and> \<not> IsValidOutputType ''image'' \<and> IsValidOutputType ''git'' \<and> \<not> IsValidType ''bogus''"
proof -
  have allowed: "AllowedOutputResources t = (if t = ''git'' \<or> t = ''storage'' then Some True else None)" for t
    by (simp add: AllowedOutputResources_def
        PipelineResourceTypeStorage_def PipelineResourceTypeGit_def)
  have types: "set AllResourceTypes
      = {''git'', ''storage'', ''image'', ''cluster'', ''pullRequest'', ''cloudEvent''}"
    by (simp add: AllResourceTypes_def
        PipelineResourceTypeGit_def PipelineResourceTypeStorage_def PipelineResourceTypeImage_def
        PipelineResourceTypeCluster_def PipelineResourceTypePullRequest_def
        PipelineResourceTypeCloudEvent_def)
  have out: "IsValidOutputType t \<longleftrightarrow> t = ''storage'' \<or> t = ''git''" for t
    by (auto simp add: IsValidOutputType_def allowed)
  have "{t. AllowedOutputResources t = Some True} = {''storage'', ''git''}"
    by (rule set_eqI) (auto simp add: allowed)
  moreover have "dom AllowedOutputResources = {''storage'', ''git''}"
    by (rule set_eqI) (auto simp add: allowed dom_def)
  moreover note types
  moreover have "{t. IsValidOutputType t} = {''storage'', ''git''}"
    by (rule set_eqI) (simp add: out)
  moreover have "{t. IsValidType t}
      = {''git'', ''storage'', ''image'', ''cluster'', ''pullRequest'', ''cloudEvent''}"
    by (rule set_eqI) (simp only: mem_Collect_eq IsValidType_def types)
  moreover have "\<not> IsValidOutputType ''image''" "IsValidOutputType ''git''"
    by (simp_all add: out)
  moreover have "\<not> IsValidType ''bogus''"
    by (simp add: IsValidType_def types)
  ultimately show ?thesis by (intro conjI)
qed

subsection \<open>C8\<close>



subsection \<open>C9\<close>




subsection \<open>C10\<close>

text \<open>
  C10, as amended. The volume merge is not atomic within a call. When both step
  validations pass, the modifier contributes the volumes \<open>v1\<close> and \<open>v2\<close> in this order,
  the name of \<open>v1\<close> is new, and \<open>v2\<close> has the name of an existing volume from which it
  differs under the comparison of \<^verbatim>\<open>cmp.Diff\<close>, the call returns the conflicting-volume
  error for \<open>v2\<close> and \<open>v1\<close> stays appended to \<^verbatim>\<open>spec.Volumes\<close>. This holds wherever the
  two volume slices lie in memory: the cell of \<open>v2\<close> could only be written by the append
  of \<open>v1\<close> if the cell of \<open>v1\<close> were the last cell of \<^verbatim>\<open>spec.Volumes\<close>, and the name of
  \<open>v1\<close> is new.
\<close>

theorem C10_volumes_before_conflict_are_kept:
  assumes "fst (applySteps_mem m ts tm) = None"
    and "wf_slice (VolumeArrays m) (TaskSpec.Volumes ts)"
    and "wf_slice (VolumeArrays m) (GetVolumes tm)"
    and "volumesAt m (GetVolumes tm) = [v1, v2]"
    and "Volume.Name v1 \<notin> volumeNames (volumesAt m (TaskSpec.Volumes ts))"
    and "v \<in> set (volumesAt m (TaskSpec.Volumes ts))"
    and "Volume.Name v2 = Volume.Name v" and "\<not> cmpEqual eqSrc v2 v"
  shows "case ApplyTaskModifier_mem eqSrc m ts tm of
           (err, m', ts') \<Rightarrow>
             err = Some (ConflictingVolume (Volume.Name v2))
             \<and> volumesAt m' (TaskSpec.Volumes ts') = volumesAt m (TaskSpec.Volumes ts) @ [v1]"
proof -
  note run = addVolumes_mem_fresh_then_conflict [OF assms(2-8)]
  show ?thesis
    unfolding ApplyTaskModifier_mem_steps_pass [OF assms(1), of eqSrc]
    by (simp add: run)
qed

theorem C10_witness:
  "(case ApplyTaskModifier_mem (=)
           \<lparr>StepArrays = [[\<lparr>Step.Name = ''A''\<rparr>], [\<lparr>Step.Name = ''P''\<rparr>],
                          [\<lparr>Step.Name = ''Q''\<rparr>]],
            VolumeArrays = [[\<lparr>Volume.Name = ''creds'', VolumeSource = ''X''\<rparr>],
                            [\<lparr>Volume.Name = ''cache'', VolumeSource = ''Z''\<rparr>,
                             \<lparr>Volume.Name = ''creds'', VolumeSource = ''Y''\<rparr>]]\<rparr>
           \<lparr>Steps = \<lparr>array = 0, offset = 0, len = 1, cap = 1\<rparr>,
            TaskSpec.Volumes = \<lparr>array = 0, offset = 0, len = 1, cap = 1\<rparr>\<rparr>
           \<lparr>GetStepsToPrepend = \<lparr>array = 1, offset = 0, len = 1, cap = 1\<rparr>,
            GetStepsToAppend = \<lparr>array = 2, offset = 0, len = 1, cap = 1\<rparr>,
            GetVolumes = \<lparr>array = 1, offset = 0, len = 2, cap = 2\<rparr>\<rparr> of
      (err, m', ts') \<Rightarrow>
        err = Some (ConflictingVolume ''creds'')
        \<and> volumesAt m' (TaskSpec.Volumes ts')
            = [\<lparr>Volume.Name = ''creds'', VolumeSource = ''X''\<rparr>,
               \<lparr>Volume.Name = ''cache'', VolumeSource = ''Z''\<rparr>])"
proof -
  let ?v = "\<lparr>Volume.Name = ''creds'', VolumeSource = ''X''\<rparr>"
  let ?v1 = "\<lparr>Volume.Name = ''cache'', VolumeSource = ''Z''\<rparr>"
  let ?v2 = "\<lparr>Volume.Name = ''creds'', VolumeSource = ''Y''\<rparr>"
  let ?m = "\<lparr>StepArrays = [[\<lparr>Step.Name = ''A''\<rparr>], [\<lparr>Step.Name = ''P''\<rparr>],
                          [\<lparr>Step.Name = ''Q''\<rparr>]],
            VolumeArrays = [[?v], [?v1, ?v2]]\<rparr>"
  let ?ts = "\<lparr>Steps = \<lparr>array = 0, offset = 0, len = 1, cap = 1\<rparr>,
            TaskSpec.Volumes = \<lparr>array = 0, offset = 0, len = 1, cap = 1\<rparr>\<rparr>"
  let ?tm = "\<lparr>GetStepsToPrepend = \<lparr>array = 1, offset = 0, len = 1, cap = 1\<rparr>,
            GetStepsToAppend = \<lparr>array = 2, offset = 0, len = 1, cap = 1\<rparr>,
            GetVolumes = \<lparr>array = 1, offset = 0, len = 2, cap = 2\<rparr>\<rparr>"
  have tsv: "volumesAt ?m (TaskSpec.Volumes ?ts) = [?v]"
    by (simp add: elems_def)
  have h1: "fst (applySteps_mem ?m ?ts ?tm) = None"
    by (simp add: applySteps_mem_def go_append_def elems_def Let_def)
  have h2: "wf_slice (VolumeArrays ?m) (TaskSpec.Volumes ?ts)"
    by (simp add: wf_slice_def)
  have h3: "wf_slice (VolumeArrays ?m) (GetVolumes ?tm)"
    by (simp add: wf_slice_def)
  have h4: "volumesAt ?m (GetVolumes ?tm) = [?v1, ?v2]"
    by (simp add: elems_def)
  have h5: "Volume.Name ?v1 \<notin> volumeNames (volumesAt ?m (TaskSpec.Volumes ?ts))"
    unfolding tsv by simp
  have h6: "?v \<in> set (volumesAt ?m (TaskSpec.Volumes ?ts))"
    unfolding tsv by simp
  have h7: "Volume.Name ?v2 = Volume.Name ?v" by simp
  have h8: "\<not> cmpEqual (=) ?v2 ?v" by (simp add: cmpEqual_def)
  from C10_volumes_before_conflict_are_kept [OF h1 h2 h3 h4 h5 h6 h7 h8]
  show ?thesis
    unfolding tsv by simp
qed

text \<open>
  C10 as stated covers every modifier with these two volumes, and takes \<open>v2\<close> to conflict
  when its contents are different. First, a modifier that also prepends a step named
  like an existing step is stopped by the prepend validation: the error is a
  duplicate-step-name error and \<open>v1\<close> is not appended. Second, with volume sources that
  are quantities, the existing volume \<open>scratch\<close> of quantity \<open>1\<close> and the contributed
  volumes \<open>cache\<close> and \<open>scratch\<close> of quantity \<open>1000m\<close>: the two volumes \<open>scratch\<close> are
  different values, \<^verbatim>\<open>cmp.Diff\<close> compares the quantities with their \<^verbatim>\<open>Equal\<close> method and
  reports no difference, and the call returns no error.
\<close>

theorem C10_counterexample:
  "ApplyTaskModifier (=)
     \<lparr>Steps = [\<lparr>Step.Name = ''A''\<rparr>],
      TaskSpec.Volumes = [\<lparr>Volume.Name = ''creds'', VolumeSource = ''X''\<rparr>]\<rparr>
     \<lparr>GetStepsToPrepend = [\<lparr>Step.Name = ''A''\<rparr>],
      GetStepsToAppend = [],
      GetVolumes = [\<lparr>Volume.Name = ''cache'', VolumeSource = ''Z''\<rparr>,
                    \<lparr>Volume.Name = ''creds'', VolumeSource = ''Y''\<rparr>]\<rparr>
   = (Some (DuplicateStepName ''A''),
      \<lparr>Steps = [\<lparr>Step.Name = ''A''\<rparr>],
       TaskSpec.Volumes = [\<lparr>Volume.Name = ''creds'', VolumeSource = ''X''\<rparr>]\<rparr>)
   \<and> \<lparr>Volume.Name = ''scratch'', VolumeSource = \<lparr>unscaled = 1000, scale = - 3\<rparr>\<rparr>
       \<noteq> \<lparr>Volume.Name = ''scratch'', VolumeSource = \<lparr>unscaled = 1, scale = 0\<rparr>\<rparr>
   \<and> ApplyTaskModifier Quantity_Equal
     \<lparr>Steps = [\<lparr>Step.Name = ''A''\<rparr>],
      TaskSpec.Volumes = [\<lparr>Volume.Name = ''scratch'',
                           VolumeSource = \<lparr>unscaled = 1, scale = 0\<rparr>\<rparr>]\<rparr>
     \<lparr>GetStepsToPrepend = [],
      GetStepsToAppend = [],
      GetVolumes = [\<lparr>Volume.Name = ''cache'', VolumeSource = \<lparr>unscaled = 5, scale = 0\<rparr>\<rparr>,
                    \<lparr>Volume.Name = ''scratch'',
                     VolumeSource = \<lparr>unscaled = 1000, scale = - 3\<rparr>\<rparr>]\<rparr>
   = (None,
      \<lparr>Steps = [\<lparr>Step.Name = ''A''\<rparr>],
       TaskSpec.Volumes = [\<lparr>Volume.Name = ''scratch'',
                            VolumeSource = \<lparr>unscaled = 1, scale = 0\<rparr>\<rparr>,
                           \<lparr>Volume.Name = ''cache'',
                            VolumeSource = \<lparr>unscaled = 5, scale = 0\<rparr>\<rparr>]\<rparr>)"
  by (simp add: ApplyTaskModifier_def cmpEqual_def Quantity_Equal_def Let_def)

end
